theory Spec2Isabelle
  imports Complex_Main "HOL-Library.Sublist" "HOL-Library.Log_Nat"
begin

section \<open>The clock and the calendar\<close>

text \<open>
  The handlers read the wall clock with Python's \<open>datetime.now()\<close>.  A reading is a
  record of the six calendar fields the handlers look at; a reading of the clock is a
  valid date and time of a year from 1000 to 9999, and the functions below are written
  for these (they are total, and the theorems hold for every value of the fields).
  \<open>handle_checkin\<close> reads the clock a few statements apart within one call; the model
  hands it one reading \<open>now\<close> for the call.
\<close>

record datetime =
  year :: nat
  month :: nat
  day :: nat
  hour :: nat
  minute :: nat
  second :: nat

text \<open>The character of the last decimal digit of a number.\<close>

definition digit :: "nat \<Rightarrow> char" where
  "digit n = ''0123456789'' ! (n mod 10)"

text \<open>Zero-padded decimal fields, as \<open>%m\<close>, \<open>%d\<close>, \<open>%H\<close>, \<open>%M\<close>, \<open>%S\<close> (two digits) and
  \<open>%Y\<close> (four digits) of \<open>strftime\<close> print them.\<close>

definition pad2 :: "nat \<Rightarrow> string" where
  "pad2 n = [digit (n div 10 mod 10), digit (n mod 10)]"

definition pad4 :: "nat \<Rightarrow> string" where
  "pad4 n = [digit (n div 1000 mod 10), digit (n div 100 mod 10),
             digit (n div 10 mod 10), digit (n mod 10)]"

text \<open>\<open>t.strftime("%Y-%m-%d")\<close>\<close>

definition strftime_date :: "datetime \<Rightarrow> string" where
  "strftime_date t = pad4 (year t) @ ''-'' @ pad2 (month t) @ ''-'' @ pad2 (day t)"

text \<open>\<open>t.strftime("%H:%M:%S")\<close>\<close>

definition strftime_time :: "datetime \<Rightarrow> string" where
  "strftime_time t = pad2 (hour t) @ '':'' @ pad2 (minute t) @ '':'' @ pad2 (second t)"

definition is_leap :: "nat \<Rightarrow> bool" where
  "is_leap y = (y mod 4 = 0 \<and> (y mod 100 \<noteq> 0 \<or> y mod 400 = 0))"

definition days_in_month :: "nat \<Rightarrow> nat \<Rightarrow> nat" where
  "days_in_month y m =
     (if m = 2 then (if is_leap y then 29 else 28)
      else if m = 4 \<or> m = 6 \<or> m = 9 \<or> m = 11 then 30 else 31)"

text \<open>\<open>t - timedelta(days=1)\<close>: the same time of day on the previous calendar day.\<close>

definition minus_one_day :: "datetime \<Rightarrow> datetime" where
  "minus_one_day t =
     (if 1 < day t then t\<lparr>day := day t - 1\<rparr>
      else if 1 < month t
        then t\<lparr>month := month t - 1, day := days_in_month (year t) (month t - 1)\<rparr>
      else t\<lparr>year := year t - 1, month := 12, day := 31\<rparr>)"

text \<open>
  Modelled from the spec: \<open>get_time_period\<close> lives in \<open>utils/time_utils.py\<close>, which is not
  among the sources.  The spec fixes its three buckets: \<open>morning\<close> is [05:00, 12:00),
  \<open>afternoon\<close> is [12:00, 20:00) and \<open>night\<close> is [20:00, 05:00), wrapping midnight.
\<close>

definition get_time_period :: "datetime \<Rightarrow> string" where
  "get_time_period t =
     (if 5 \<le> hour t \<and> hour t < 12 then ''morning''
      else if 12 \<le> hour t \<and> hour t < 20 then ''afternoon''
      else ''night'')"

section \<open>Files and errors\<close>

text \<open>
  What \<open>open\<close> followed by \<open>json.load\<close> can meet at a path: no file, a file whose text
  does not parse, or a document.
\<close>

datatype 'a json_file = Missing | Corrupt | Content 'a

datatype py_error =
    FileNotFoundError
  | JSONDecodeError
  | KeyError
  | ValueError
  | ZeroDivisionError
  | IndexError

section \<open>The check-in handler (\<open>handlers/checkin.py\<close>)\<close>

record history_entry =
  date :: string
  time :: string
  period :: string

record checkin_record =
  user_id :: int
  group_id :: int
  first_date :: string
  last_date :: string
  total_days :: int
  continuous_days :: int
  history :: "history_entry list"

text \<open>The document \<open>checkin_data.json\<close>: one record per key.\<close>

type_synonym checkin_data = "string \<rightharpoonup> checkin_record"

text \<open>Python's \<open>str\<close> of an integer, for the f-string that builds the key.\<close>

fun str_nat :: "nat \<Rightarrow> string" where
  "str_nat n = (if n < 10 then [digit n] else str_nat (n div 10) @ [digit (n mod 10)])"

declare str_nat.simps [simp del]

definition str_int :: "int \<Rightarrow> string" where
  "str_int i = (if i < 0 then ''-'' @ str_nat (nat (- i)) else str_nat (nat i))"

text \<open>\<open>f"{user_id}_{group_id}"\<close>\<close>

definition checkin_key :: "int \<Rightarrow> int \<Rightarrow> string" where
  "checkin_key uid gid = str_int uid @ ''_'' @ str_int gid"

text \<open>
  The texts the handler sends.  \<open>NightRefusal\<close> is the refusal of the night branch,
  \<open>AlreadySigned\<close> the answer to a second check-in on one day.  The three others are
  what \<open>_send_checkin_response\<close> builds: the morning text carries the almanac line, the
  total and the streak; the afternoon text the total and the streak; \<open>InvalidPeriod\<close> is
  its "system error" text for any other period.  Each of the three ends in one of four
  suffixes, chosen by \<open>random.choice\<close>; the number is the index chosen.
\<close>

datatype message =
    NightRefusal
  | AlreadySigned
  | MorningReply string int int nat
  | AfternoonReply int int nat
  | InvalidPeriod nat

text \<open>\<open>bot.send_group_msg(group_id=..., message=...)\<close>\<close>

datatype outgoing = Send_group_msg int message

text \<open>
  What a call takes from outside the handler: the clock, the almanac line that
  \<open>_get_horoscope\<close> returns (a cached network fetch), and the index \<open>random.choice\<close>
  picks among the four suffixes.
\<close>

record env =
  now :: datetime
  horoscope :: string
  suffix :: nat

definition load_checkin_data :: "checkin_data json_file \<Rightarrow> py_error + checkin_data" where
  "load_checkin_data f =
     (case f of
        Missing \<Rightarrow> Inl FileNotFoundError
      | Corrupt \<Rightarrow> Inl JSONDecodeError
      | Content d \<Rightarrow> Inr d)"

definition save_checkin_data :: "checkin_data \<Rightarrow> checkin_data json_file" where
  "save_checkin_data d = Content d"

definition send_checkin_response :: "env \<Rightarrow> int \<Rightarrow> checkin_record \<Rightarrow> string \<Rightarrow> outgoing" where
  "send_checkin_response e gid r p =
     (let days = total_days r; cont = continuous_days r in
      Send_group_msg gid
        (if p = ''morning'' then MorningReply (horoscope e) days cont (suffix e)
         else if p = ''afternoon'' then AfternoonReply days cont (suffix e)
         else InvalidPeriod (suffix e)))"

text \<open>\<open>data.get(key, {...})\<close>: the stored record, or a fresh one dated today.\<close>

definition get_record :: "checkin_data \<Rightarrow> int \<Rightarrow> int \<Rightarrow> string \<Rightarrow> checkin_record" where
  "get_record d uid gid today =
     (case d (checkin_key uid gid) of
        Some r \<Rightarrow> r
      | None \<Rightarrow> \<lparr>user_id = uid, group_id = gid, first_date = today, last_date = [],
                 total_days = 0, continuous_days = 0, history = []\<rparr>)"

text \<open>
  The dictionary \<open>new_record\<close> that \<open>handle_checkin\<close> builds from the record \<open>r\<close> it
  found: \<open>yesterday\<close> and the local \<open>continuous_days\<close> are computed first, then every key
  of \<open>r\<close> is kept except the four that are overwritten.
\<close>

definition new_record :: "datetime \<Rightarrow> checkin_record \<Rightarrow> checkin_record" where
  "new_record t r =
     (let today = strftime_date t;
          now_time = strftime_time t;
          yesterday = strftime_date (minus_one_day t);
          cont = (if last_date r = yesterday then continuous_days r + 1
                  else if last_date r \<noteq> [] then 1
                  else 1)
      in r\<lparr>last_date := today,
            total_days := total_days r + 1,
            continuous_days := cont,
            history := history r @
              [\<lparr>date = today, time = now_time, period = get_time_period t\<rparr>]\<rparr>)"

text \<open>
  \<open>handle_checkin\<close>.  The result is \<open>Inl\<close> the exception that leaves the handler, or
  \<open>Inr\<close> the messages sent and the data file as the call leaves it.
\<close>

definition handle_checkin ::
  "env \<Rightarrow> int \<Rightarrow> int \<Rightarrow> checkin_data json_file \<Rightarrow> py_error + (outgoing list \<times> checkin_data json_file)" where
  "handle_checkin e uid gid f =
     (let p = get_time_period (now e) in
      if p = ''night'' then Inr ([Send_group_msg gid NightRefusal], f)
      else
        let today = strftime_date (now e);
            key = checkin_key uid gid
        in case load_checkin_data f of
             Inl err \<Rightarrow> Inl err
           | Inr d \<Rightarrow>
               let r = get_record d uid gid today in
               if last_date r = today then Inr ([Send_group_msg gid AlreadySigned], f)
               else
                 let r' = new_record (now e) r
                 in Inr ([send_checkin_response e gid r' p],
                         save_checkin_data (d(key \<mapsto> r'))))"

text \<open>
  Any sequence of calls, each with its own clock reading and subject, run one after the
  other on the data file.  A call that raises leaves the file as it was.
\<close>

fun run_checkins ::
  "(env \<times> int \<times> int) list \<Rightarrow> checkin_data json_file \<Rightarrow> checkin_data json_file" where
  "run_checkins [] f = f"
| "run_checkins ((e, uid, gid) # cs) f =
     (case handle_checkin e uid gid f of
        Inl err \<Rightarrow> run_checkins cs f
      | Inr (out, f') \<Rightarrow> run_checkins cs f')"

text \<open>The invariant of a check-in record.\<close>

definition record_ok :: "checkin_record \<Rightarrow> bool" where
  "record_ok r = (continuous_days r \<le> total_days r \<and> int (length (history r)) = total_days r)"

section \<open>The configuration manager (\<open>config.py\<close>)\<close>

text \<open>
  A JSON object read from a data file is a map from its keys to their values; \<open>{}\<close> is
  the empty map.  \<open>_load_json\<close> opens the file and parses it, and answers
  \<open>FileNotFoundError\<close> and \<open>JSONDecodeError\<close> with \<open>{}\<close>.
\<close>

definition load_json :: "('k \<rightharpoonup> 'v) json_file \<Rightarrow> ('k \<rightharpoonup> 'v)" where
  "load_json f =
     (case f of
        Missing \<Rightarrow> Map.empty
      | Corrupt \<Rightarrow> Map.empty
      | Content d \<Rightarrow> d)"

text \<open>\<open>_save_json\<close> overwrites the file with the document.\<close>

definition save_json :: "('k \<rightharpoonup> 'v) \<Rightarrow> ('k \<rightharpoonup> 'v) json_file" where
  "save_json d = Content d"

text \<open>
  The blacklist document maps \<open>"users"\<close> to a list of user ids (and \<open>"words"\<close> to a list
  that the operations below never touch).  The manager keeps the parsed document in
  memory and the file on disk.
\<close>

type_synonym id_lists = "string \<rightharpoonup> int list"

record config_manager =
  blacklist :: id_lists
  blacklist_json :: "id_lists json_file"

text \<open>The entry of \<open>blacklist.json\<close> in the table \<open>required_files\<close> of
  \<open>_ensure_data_dir\<close>: \<open>{"users": [], "words": []}\<close>.\<close>

definition default_blacklist :: id_lists where
  "default_blacklist = [''users'' \<mapsto> [], ''words'' \<mapsto> []]"

text \<open>\<open>_ensure_data_dir\<close> on one file: written with its default content when it does
  not exist.\<close>

definition ensure_data_file :: "('k \<rightharpoonup> 'v) \<Rightarrow> ('k \<rightharpoonup> 'v) json_file \<Rightarrow> ('k \<rightharpoonup> 'v) json_file" where
  "ensure_data_file default_content f =
     (case f of Missing \<Rightarrow> Content default_content | _ \<Rightarrow> f)"

text \<open>\<open>ConfigManager.__init__\<close>, for the blacklist: \<open>_ensure_data_dir\<close>, then
  \<open>_load_data_files\<close>.\<close>

definition init_config_manager :: "id_lists json_file \<Rightarrow> config_manager" where
  "init_config_manager f =
     (let f' = ensure_data_file default_blacklist f
      in \<lparr>blacklist = load_json f', blacklist_json = f'\<rparr>)"

text \<open>\<open>self.blacklist["users"]\<close>: a missing key raises \<open>KeyError\<close>.\<close>

definition blacklist_users :: "config_manager \<Rightarrow> py_error + int list" where
  "blacklist_users s =
     (case blacklist s ''users'' of None \<Rightarrow> Inl KeyError | Some us \<Rightarrow> Inr us)"

text \<open>Storing the list back under \<open>"users"\<close> and \<open>_save_json("blacklist.json", ...)\<close>.
  The list object is mutated in place, so the document in memory holds the new list
  before the save.\<close>

definition store_users :: "config_manager \<Rightarrow> int list \<Rightarrow> config_manager" where
  "store_users s us =
     (let b = (blacklist s)(''users'' \<mapsto> us)
      in s\<lparr>blacklist := b, blacklist_json := save_json b\<rparr>)"

definition add_to_blacklist :: "int \<Rightarrow> config_manager \<Rightarrow> py_error + config_manager" where
  "add_to_blacklist u s =
     (case blacklist_users s of
        Inl err \<Rightarrow> Inl err
      | Inr us \<Rightarrow>
          if u \<notin> set us then Inr (store_users s (us @ [u])) else Inr s)"

text \<open>\<open>list.remove\<close> takes out the first occurrence.\<close>

definition remove_from_blacklist :: "int \<Rightarrow> config_manager \<Rightarrow> py_error + config_manager" where
  "remove_from_blacklist u s =
     (case blacklist_users s of
        Inl err \<Rightarrow> Inl err
      | Inr us \<Rightarrow>
          if u \<in> set us then Inr (store_users s (remove1 u us)) else Inr s)"

definition is_blacklisted :: "int \<Rightarrow> config_manager \<Rightarrow> py_error + bool" where
  "is_blacklisted u s =
     (case blacklist_users s of
        Inl err \<Rightarrow> Inl err
      | Inr us \<Rightarrow> Inr (u \<in> set us))"

text \<open>Any sequence of additions and removals, stopping at the first exception.\<close>

datatype blacklist_op = Add int | Remove int

fun run_blacklist :: "blacklist_op list \<Rightarrow> config_manager \<Rightarrow> py_error + config_manager" where
  "run_blacklist [] s = Inr s"
| "run_blacklist (Add u # ops) s =
     (case add_to_blacklist u s of Inl err \<Rightarrow> Inl err | Inr s' \<Rightarrow> run_blacklist ops s')"
| "run_blacklist (Remove u # ops) s =
     (case remove_from_blacklist u s of Inl err \<Rightarrow> Inl err | Inr s' \<Rightarrow> run_blacklist ops s')"

text \<open>The blacklist document has a \<open>"users"\<close> list and no id occurs twice in it.\<close>

definition users_ok :: "config_manager \<Rightarrow> bool" where
  "users_ok s = (case blacklist s ''users'' of None \<Rightarrow> False | Some us \<Rightarrow> distinct us)"

section \<open>The developer handler (\<open>handlers/developer.py\<close>)\<close>

text \<open>The fields of \<open>PluginConfig\<close> (the data directory apart) and the three permission
  tests of \<open>ConfigManager\<close>.\<close>

record plugin_config =
  master_qq :: int
  agents :: "int list"
  vip_users :: "int list"
  debug_mode :: bool
  permission_mode :: bool
  group_approve_mode :: bool
  shutdown_code :: "string option"

definition is_master :: "plugin_config \<Rightarrow> int \<Rightarrow> bool" where
  "is_master c u = (u = master_qq c)"

definition is_agent :: "plugin_config \<Rightarrow> int \<Rightarrow> bool" where
  "is_agent c u = (u \<in> set (agents c))"

definition is_admin :: "plugin_config \<Rightarrow> int \<Rightarrow> bool" where
  "is_admin c u = (is_master c u \<or> is_agent c u)"

text \<open>
  The text of a chat message is a Python \<open>str\<close>: a list of code points.  \<open>isspace\<close> is
  true on the code points that \<open>str.strip()\<close> removes; \<open>msg[2:]\<close> is \<open>drop 2\<close>.
\<close>

type_synonym pystr = "nat list"

definition isspace :: "nat \<Rightarrow> bool" where
  "isspace c =
     (c \<in> set [0x9, 0xA, 0xB, 0xC, 0xD, 0x1C, 0x1D, 0x1E, 0x1F, 0x20, 0x85, 0xA0, 0x1680,
               0x2000, 0x2001, 0x2002, 0x2003, 0x2004, 0x2005, 0x2006, 0x2007, 0x2008,
               0x2009, 0x200A, 0x2028, 0x2029, 0x202F, 0x205F, 0x3000])"

definition strip :: "pystr \<Rightarrow> pystr" where
  "strip s = rev (dropWhile isspace (rev (dropWhile isspace s)))"

definition startswith :: "pystr \<Rightarrow> pystr \<Rightarrow> bool" where
  "startswith s p = (take (length p) s = p)"

text \<open>
  \<open>str.isdigit\<close> and \<open>int\<close> follow the Unicode tables of the interpreter; the handler takes
  them as given.  \<open>int\<close> raises \<open>ValueError\<close> on a string it cannot read.
\<close>

record str_lib =
  isdigit :: "pystr \<Rightarrow> bool"
  to_int :: "pystr \<Rightarrow> py_error + int"

text \<open>The four admin phrases that \<open>check_developer_commands\<close> matches, as code points:
  add a delegate, remove a delegate, take over join requests, stop taking them over.\<close>

definition phrase_agent_add :: pystr where
  "phrase_agent_add = [0x53C2, 0x8C0B]"

definition phrase_agent_remove :: pystr where
  "phrase_agent_remove = [0x53D8, 0x5366]"

definition phrase_approve_on :: pystr where
  "phrase_approve_on = [0x89C2, 0x661F]"

definition phrase_approve_off :: pystr where
  "phrase_approve_off = [0x5408, 0x773C]"

text \<open>
  A message event is of class \<open>GroupMessageEvent\<close> (sender, group, text),
  \<open>PrivateMessageEvent\<close> (sender, text) or another subclass of \<open>MessageEvent\<close>.  The text
  is \<open>str(event.message)\<close>.
\<close>

datatype message_event =
    GroupMessageEvent int int pystr
  | PrivateMessageEvent int pystr
  | OtherMessageEvent int pystr

fun event_user_id :: "message_event \<Rightarrow> int" where
  "event_user_id (GroupMessageEvent u g m) = u"
| "event_user_id (PrivateMessageEvent u m) = u"
| "event_user_id (OtherMessageEvent u m) = u"

fun event_message :: "message_event \<Rightarrow> pystr" where
  "event_message (GroupMessageEvent u g m) = m"
| "event_message (PrivateMessageEvent u m) = m"
| "event_message (OtherMessageEvent u m) = m"

fun is_group_or_private :: "message_event \<Rightarrow> bool" where
  "is_group_or_private (GroupMessageEvent u g m) = True"
| "is_group_or_private (PrivateMessageEvent u m) = True"
| "is_group_or_private (OtherMessageEvent u m) = False"

text \<open>The texts the handler sends: the menu of the fourteen admin commands, and the
  answers of the four commands.\<close>

datatype developer_text =
    DeveloperMenu
  | AgentsFull
  | AgentAdded
  | AgentRemoved
  | NotAnAgent
  | ApproveOn
  | ApproveOff

text \<open>
  What a handler does to the outside, in order: \<open>bot.send_private_msg\<close>, \<open>bot.send\<close> in
  answer to an event, and \<open>config.save_config()\<close>.  The body of \<open>save_config\<close> is not among
  the sources; the call is recorded with the configuration it is made on.
\<close>

datatype effect =
    Send_private_msg int developer_text
  | Send message_event developer_text
  | Save_config plugin_config

definition handle_developer :: "plugin_config \<Rightarrow> int \<Rightarrow> effect list" where
  "handle_developer c uid =
     (if \<not> is_admin c uid then []
      else [Send_private_msg uid DeveloperMenu])"

text \<open>The result of a command handler: the exception that leaves it, or the boolean it
  returns, what it did, and the configuration after it.\<close>

type_synonym command_result = "py_error + (bool \<times> effect list \<times> plugin_config)"

definition handle_agent_add ::
  "str_lib \<Rightarrow> plugin_config \<Rightarrow> message_event \<Rightarrow> pystr \<Rightarrow> command_result" where
  "handle_agent_add lib c ev qq_str =
     (if \<not> isdigit lib qq_str then Inr (False, [], c)
      else case to_int lib qq_str of
             Inl err \<Rightarrow> Inl err
           | Inr qq \<Rightarrow>
               if length (agents c) \<ge> 2 then Inr (True, [Send ev AgentsFull], c)
               else
                 let c' = c\<lparr>agents := agents c @ [qq]\<rparr>
                 in Inr (True, [Save_config c', Send ev AgentAdded], c'))"

definition handle_agent_remove ::
  "str_lib \<Rightarrow> plugin_config \<Rightarrow> message_event \<Rightarrow> pystr \<Rightarrow> command_result" where
  "handle_agent_remove lib c ev qq_str =
     (if \<not> isdigit lib qq_str then Inr (False, [], c)
      else case to_int lib qq_str of
             Inl err \<Rightarrow> Inl err
           | Inr qq \<Rightarrow>
               if qq \<in> set (agents c) then
                 let c' = c\<lparr>agents := remove1 qq (agents c)\<rparr>
                 in Inr (True, [Save_config c', Send ev AgentRemoved], c')
               else Inr (True, [Send ev NotAnAgent], c))"

definition check_developer_commands ::
  "str_lib \<Rightarrow> plugin_config \<Rightarrow> message_event \<Rightarrow> command_result" where
  "check_developer_commands lib c ev =
     (if \<not> is_group_or_private ev then Inr (False, [], c)
      else
        let user_id = event_user_id ev in
        if \<not> is_admin c user_id then Inr (False, [], c)
        else
          let msg = strip (event_message ev) in
          if startswith msg phrase_agent_add
            then handle_agent_add lib c ev (strip (drop 2 msg))
          else if startswith msg phrase_agent_remove
            then handle_agent_remove lib c ev (strip (drop 2 msg))
          else if msg = phrase_approve_on then
            let c' = c\<lparr>group_approve_mode := True\<rparr>
            in Inr (True, [Save_config c', Send ev ApproveOn], c')
          else if msg = phrase_approve_off then
            let c' = c\<lparr>group_approve_mode := False\<rparr>
            in Inr (True, [Save_config c', Send ev ApproveOff], c')
          else Inr (False, [], c))"

section \<open>The divination handler (\<open>handlers/divination.py\<close>)\<close>

text \<open>
  Python's \<open>float\<close> is a binary floating-point number, and every finite one is a
  rational.  The model computes on rationals and takes the rounded operations of the
  interpreter as given: \<open>lit\<close> reads a positive decimal literal, \<open>fadd\<close>, \<open>fmul\<close> and
  \<open>fdiv\<close> are \<open>+\<close>, \<open>*\<close> and \<open>/\<close> on floats, and \<open>fsum\<close> is the builtin \<open>sum\<close> on a list
  of floats.  Negation and comparison are exact on floats.
\<close>

record float_ops =
  lit :: "rat \<Rightarrow> rat"
  fadd :: "rat \<Rightarrow> rat \<Rightarrow> rat"
  fmul :: "rat \<Rightarrow> rat \<Rightarrow> rat"
  fdiv :: "rat \<Rightarrow> rat \<Rightarrow> rat"
  fsum :: "rat list \<Rightarrow> rat"

text \<open>The five keys of the luck tables, best to worst, in the order the dictionary
  literals list them.\<close>

datatype tier = Great_luck | Middle_luck | Small_luck | Bad_luck | Great_bad_luck

text \<open>\<open>_load_lucky_data\<close>: three descriptions for each tier; \<open>Detail t n\<close> is the
  description number \<open>n\<close> of tier \<open>t\<close>.\<close>

datatype detail = Detail tier nat

definition load_lucky_data :: "tier \<Rightarrow> detail list" where
  "load_lucky_data t = [Detail t 0, Detail t 1, Detail t 2]"

text \<open>The names of the three constellations that have an adjustment (Aries, Capricorn,
  Pisces), as code points.\<close>

definition aries :: pystr where
  "aries = [0x767D, 0x7F8A, 0x5EA7]"

definition capricorn :: pystr where
  "capricorn = [0x6469, 0x7FAF, 0x5EA7]"

definition pisces :: pystr where
  "pisces = [0x53CC, 0x9C7C, 0x5EA7]"

text \<open>The dictionary \<open>weights\<close> of \<open>_generate_luck\<close>, keys in insertion order.\<close>

definition weights :: "float_ops \<Rightarrow> (tier \<times> rat) list" where
  "weights ops =
     [(Great_luck, lit ops (15 / 100)),
      (Middle_luck, lit ops (25 / 100)),
      (Small_luck, lit ops (35 / 100)),
      (Bad_luck, lit ops (2 / 10)),
      (Great_bad_luck, lit ops (5 / 100))]"

text \<open>The dictionary \<open>adjustments\<close> of \<open>_generate_luck\<close>.\<close>

definition adjustments :: "float_ops \<Rightarrow> (pystr \<times> (tier \<times> rat) list) list" where
  "adjustments ops =
     [(aries, [(Great_luck, lit ops (5 / 100)), (Bad_luck, - lit ops (3 / 100))]),
      (capricorn, [(Middle_luck, lit ops (1 / 10)), (Great_bad_luck, - lit ops (5 / 100))]),
      (pisces, [(Small_luck, lit ops (7 / 100)), (Bad_luck, lit ops (3 / 100))])]"

text \<open>\<open>final_weights[k] += v\<close> on a dictionary that has the key \<open>k\<close>.\<close>

definition dict_add :: "float_ops \<Rightarrow> (tier \<times> rat) list \<Rightarrow> tier \<Rightarrow> rat \<Rightarrow> (tier \<times> rat) list" where
  "dict_add ops fw k v = map (\<lambda>(k', w). if k' = k then (k', fadd ops w v) else (k', w)) fw"

text \<open>The copy of \<open>weights\<close> after the loop over \<open>adjustments[constellation].items()\<close>,
  for an adjustment table \<open>adj\<close>.\<close>

definition final_weights :: "float_ops \<Rightarrow> (pystr \<times> (tier \<times> rat) list) list \<Rightarrow> pystr \<Rightarrow> (tier \<times> rat) list" where
  "final_weights ops adj constellation =
     (case map_of adj constellation of
        None \<Rightarrow> weights ops
      | Some ds \<Rightarrow> foldl (\<lambda>fw (k, v). dict_add ops fw k v) (weights ops) ds)"

text \<open>\<open>total = sum(final_weights.values())\<close>, then \<open>final_weights[k] /= total\<close> for
  every key; a float division by zero raises.\<close>

definition normalize_weights :: "float_ops \<Rightarrow> (tier \<times> rat) list \<Rightarrow> py_error + (tier \<times> rat) list" where
  "normalize_weights ops fw =
     (let total = fsum ops (map snd fw)
      in if fw \<noteq> [] \<and> total = 0 then Inl ZeroDivisionError
         else Inr (map (\<lambda>(k, w). (k, fdiv ops w total)) fw))"

text \<open>\<open>itertools.accumulate\<close>: the running sums.\<close>

fun accumulate_from :: "float_ops \<Rightarrow> rat \<Rightarrow> rat list \<Rightarrow> rat list" where
  "accumulate_from ops acc [] = []"
| "accumulate_from ops acc (x # xs) = fadd ops acc x # accumulate_from ops (fadd ops acc x) xs"

fun accumulate :: "float_ops \<Rightarrow> rat list \<Rightarrow> rat list" where
  "accumulate ops [] = []"
| "accumulate ops (x # xs) = x # accumulate_from ops x xs"

text \<open>\<open>bisect.bisect_right(a, x, lo, hi)\<close>\<close>

function bisect :: "rat list \<Rightarrow> rat \<Rightarrow> nat \<Rightarrow> nat \<Rightarrow> nat" where
  "bisect a x lo hi =
     (if lo < hi then
        (let mid = (lo + hi) div 2
         in if x < a ! mid then bisect a x lo mid else bisect a x (mid + 1) hi)
      else lo)"
  by pat_completeness auto
termination
  by (relation "measure (\<lambda>(a, x, lo, hi). hi - lo)") auto

declare bisect.simps [simp del]

text \<open>
  \<open>random.choices(population, weights=ws, k=1)[0]\<close>, where \<open>u\<close> is the value that
  \<open>random()\<close> returns, a float in [0, 1).
\<close>

definition choices :: "float_ops \<Rightarrow> 'a list \<Rightarrow> rat list \<Rightarrow> rat \<Rightarrow> py_error + 'a" where
  "choices ops population ws u =
     (let n = length population;
          cum_weights = accumulate ops ws
      in if length cum_weights \<noteq> n then Inl ValueError
         else if cum_weights = [] then Inl IndexError
         else
           let total = last cum_weights
           in if total \<le> 0 then Inl ValueError
              else Inr (population ! bisect cum_weights (fmul ops u total) 0 (n - 1)))"

text \<open>\<open>random.choice(seq)\<close>, where \<open>i\<close> is the index the generator draws below
  \<open>len(seq)\<close>.\<close>

definition choice :: "'a list \<Rightarrow> nat \<Rightarrow> py_error + 'a" where
  "choice seq i = (if i < length seq then Inr (seq ! i) else Inl IndexError)"

text \<open>What the module-level generator \<open>random\<close> yields during one call of
  \<open>_generate_luck\<close>: the float of \<open>random()\<close> and the index of \<open>random.choice\<close>.\<close>

record rng =
  random :: rat
  randbelow :: nat

text \<open>The draw at the end of \<open>_generate_luck\<close>: a tier by \<open>random.choices\<close> over the keys
  and values of the normalized dictionary, then one of its descriptions by
  \<open>random.choice\<close>.\<close>

definition draw :: "float_ops \<Rightarrow> (tier \<times> rat) list \<Rightarrow> rng \<Rightarrow> py_error + (tier \<times> detail)" where
  "draw ops fw g =
     (let levels = map fst fw;
          probs = map snd fw
      in case choices ops levels probs (random g) of
           Inl err \<Rightarrow> Inl err
         | Inr lucky_level \<Rightarrow>
             (case choice (load_lucky_data lucky_level) (randbelow g) of
                Inl err \<Rightarrow> Inl err
              | Inr d \<Rightarrow> Inr (lucky_level, d)))"

text \<open>\<open>_generate_luck\<close> with the adjustment table as a parameter.\<close>

definition generate_luck_from ::
  "float_ops \<Rightarrow> (pystr \<times> (tier \<times> rat) list) list \<Rightarrow> pystr \<Rightarrow> rng \<Rightarrow> py_error + (tier \<times> detail)" where
  "generate_luck_from ops adj constellation g =
     (case normalize_weights ops (final_weights ops adj constellation) of
        Inl err \<Rightarrow> Inl err
      | Inr fw \<Rightarrow> draw ops fw g)"

text \<open>\<open>_generate_luck\<close>: the table is the literal \<open>adjustments\<close>.\<close>

definition generate_luck :: "float_ops \<Rightarrow> pystr \<Rightarrow> rng \<Rightarrow> py_error + (tier \<times> detail)" where
  "generate_luck ops constellation g = generate_luck_from ops (adjustments ops) constellation g"

text \<open>The probabilities handed to \<open>random.choices\<close>.\<close>

definition luck_probs :: "float_ops \<Rightarrow> pystr \<Rightarrow> py_error + (tier \<times> rat) list" where
  "luck_probs ops constellation = normalize_weights ops (final_weights ops (adjustments ops) constellation)"

subsection \<open>The distribution as the specification words it\<close>

text \<open>
  The specification describes the distribution tier by tier: start from the base
  weight; if the category has a registered adjustment that lists a delta for the tier,
  add it, otherwise leave the weight unchanged; then divide every adjusted weight by
  the sum of the adjusted weights.
\<close>

definition registered_delta :: "float_ops \<Rightarrow> pystr \<Rightarrow> tier \<Rightarrow> rat option" where
  "registered_delta ops category k =
     (case map_of (adjustments ops) category of
        None \<Rightarrow> None
      | Some ds \<Rightarrow> map_of ds k)"

definition adjusted_weights :: "float_ops \<Rightarrow> pystr \<Rightarrow> (tier \<times> rat) list" where
  "adjusted_weights ops category =
     map (\<lambda>(k, w). case registered_delta ops category k of
                      None \<Rightarrow> (k, w)
                    | Some d \<Rightarrow> (k, fadd ops w d))
         (weights ops)"

definition spec_distribution :: "float_ops \<Rightarrow> pystr \<Rightarrow> (tier \<times> rat) list" where
  "spec_distribution ops category =
     (let aw = adjusted_weights ops category;
          total = fsum ops (map snd aw)
      in map (\<lambda>(k, w). (k, fdiv ops w total)) aw)"

subsection \<open>Rounding\<close>

text \<open>
  The unit roundoff of binary64.  An arithmetic rounds correctly when a literal, a sum
  of two floats and a quotient each differ from the exact value by at most the unit
  roundoff times that value, and \<open>sum\<close> of a list of at most five non-negative floats
  (the handler sums the five weights) by at most eight times as much.
\<close>

definition unit_roundoff :: rat where
  "unit_roundoff = 1 / 2 ^ 53"

definition rounds_correctly :: "float_ops \<Rightarrow> bool" where
  "rounds_correctly ops \<longleftrightarrow>
     (\<forall>x. 0 \<le> x \<longrightarrow> \<bar>lit ops x - x\<bar> \<le> unit_roundoff * x) \<and>
     (\<forall>x y. \<bar>fadd ops x y - (x + y)\<bar> \<le> unit_roundoff * \<bar>x + y\<bar>) \<and>
     (\<forall>x y. y \<noteq> 0 \<longrightarrow> \<bar>fdiv ops x y - x / y\<bar> \<le> unit_roundoff * \<bar>x / y\<bar>) \<and>
     (\<forall>xs. length xs \<le> 5 \<and> (\<forall>x \<in> set xs. 0 \<le> x) \<longrightarrow>
        \<bar>fsum ops xs - sum_list xs\<bar> \<le> 8 * unit_roundoff * sum_list xs)"

subsection \<open>Binary64 arithmetic\<close>

text \<open>
  The floats of CPython are IEEE 754 binary64 numbers, and its operations round to
  nearest, ties to even.  \<open>ilog2 x\<close> is the exponent of a positive rational \<open>x\<close>: the
  integer \<open>e\<close> with \<open>2\<^sup>e \<le> x < 2\<^sup>e\<^sup>+\<^sup>1\<close>.  \<open>round64 x\<close> is the nearest number with a
  significand of 53 bits.  The exponent range is not limited: the numbers that
  \<open>_generate_luck\<close> meets are zero or lie between \<open>2\<^sup>-\<^sup>6\<close> and 2, far from overflow and
  underflow.  \<open>fsum\<close> adds from left to right, starting from 0, as the builtin \<open>sum\<close> of
  CPython up to 3.11 does; later versions carry a compensation term along, which only
  brings the result closer to the exact sum.
\<close>

definition ilog2 :: "rat \<Rightarrow> int" where
  "ilog2 x =
     (let (p, q) = quotient_of x;
          e = bitlen p - bitlen q
      in if 2 powi e \<le> x then e else e - 1)"

definition round_even :: "rat \<Rightarrow> int" where
  "round_even y =
     (let f = \<lfloor>y\<rfloor>; r = y - of_int f
      in if r < 1 / 2 then f
         else if 1 / 2 < r then f + 1
         else if even f then f else f + 1)"

definition round64 :: "rat \<Rightarrow> rat" where
  "round64 x =
     (if x = 0 then 0
      else let s = 2 powi (ilog2 \<bar>x\<bar> - 52)
           in of_int (round_even (x / s)) * s)"

definition binary64_ops :: float_ops where
  "binary64_ops =
     \<lparr>lit = round64,
      fadd = (\<lambda>x y. round64 (x + y)),
      fmul = (\<lambda>x y. round64 (x * y)),
      fdiv = (\<lambda>x y. round64 (x / y)),
      fsum = foldl (\<lambda>a x. round64 (a + x)) 0\<rparr>"

section \<open>Concrete inputs\<close>

text \<open>Clock readings on and around 1 March 2024, and the call environment at a reading.\<close>

definition t_morning :: datetime where
  "t_morning = \<lparr>year = 2024, month = 3, day = 1, hour = 9, minute = 5, second = 7\<rparr>"

definition t_afternoon :: datetime where
  "t_afternoon = \<lparr>year = 2024, month = 3, day = 1, hour = 15, minute = 0, second = 0\<rparr>"

definition t_night :: datetime where
  "t_night = \<lparr>year = 2024, month = 3, day = 1, hour = 21, minute = 30, second = 0\<rparr>"

definition t_next_day :: datetime where
  "t_next_day = \<lparr>year = 2024, month = 3, day = 2, hour = 14, minute = 0, second = 0\<rparr>"

definition t_later :: datetime where
  "t_later = \<lparr>year = 2024, month = 3, day = 5, hour = 6, minute = 0, second = 0\<rparr>"

definition env_at :: "datetime \<Rightarrow> env" where
  "env_at t = \<lparr>now = t, horoscope = ''almanac'', suffix = 2\<rparr>"

text \<open>The record of user 5 in group 7 after a first check-in at \<open>t_morning\<close>, and a
  store that holds it.\<close>

definition record_5_7 :: checkin_record where
  "record_5_7 =
     \<lparr>user_id = 5, group_id = 7, first_date = ''2024-03-01'', last_date = ''2024-03-01'',
      total_days = 1, continuous_days = 1,
      history = [\<lparr>date = ''2024-03-01'', time = ''09:05:07'', period = ''morning''\<rparr>]\<rparr>"

definition store_5_7 :: checkin_data where
  "store_5_7 = [''5_7'' \<mapsto> record_5_7]"

text \<open>The same record after a second check-in at \<open>t_next_day\<close>.\<close>

definition record_5_7_next :: checkin_record where
  "record_5_7_next =
     \<lparr>user_id = 5, group_id = 7, first_date = ''2024-03-01'', last_date = ''2024-03-02'',
      total_days = 2, continuous_days = 2,
      history = [\<lparr>date = ''2024-03-01'', time = ''09:05:07'', period = ''morning''\<rparr>,
                 \<lparr>date = ''2024-03-02'', time = ''14:00:00'', period = ''afternoon''\<rparr>]\<rparr>"

text \<open>
  Three blacklist states: a manager started on a \<open>blacklist.json\<close> whose \<open>"users"\<close> list
  holds the id 5 twice, a manager started on a corrupt \<open>blacklist.json\<close>, and a manager
  started on a fresh data directory after the ids 5 and 9 have been added.
\<close>

definition duplicate_blacklist :: id_lists where
  "duplicate_blacklist = [''users'' \<mapsto> [5, 5], ''words'' \<mapsto> []]"

definition loaded_duplicates :: config_manager where
  "loaded_duplicates = init_config_manager (Content duplicate_blacklist)"

definition loaded_corrupt :: config_manager where
  "loaded_corrupt = init_config_manager Corrupt"

definition listed_5_9 :: config_manager where
  "listed_5_9 = store_users (init_config_manager Missing) [5, 9]"

text \<open>A configuration with owner 100 and one delegate 200, and a string library that
  reads the ASCII digits.\<close>

definition config_100 :: plugin_config where
  "config_100 =
     \<lparr>master_qq = 100, agents = [200], vip_users = [1055411737], debug_mode = False,
      permission_mode = False, group_approve_mode = False, shutdown_code = None\<rparr>"

definition ascii_lib :: str_lib where
  "ascii_lib =
     \<lparr>isdigit = (\<lambda>s. s \<noteq> [] \<and> list_all (\<lambda>c. 48 \<le> c \<and> c \<le> 57) s),
      to_int = (\<lambda>s. if s \<noteq> [] \<and> list_all (\<lambda>c. 48 \<le> c \<and> c \<le> 57) s
                     then Inr (int (foldl (\<lambda>n c. 10 * n + (c - 48)) 0 s))
                     else Inl ValueError)\<rparr>"

text \<open>A state of the generator: \<open>random()\<close> returns 1/64, and \<open>random.choice\<close> picks
  index 1.\<close>

definition rng_low :: rng where
  "rng_low = \<lparr>random = 1 / 64, randbelow = 1\<rparr>"

section \<open>The check-in handler: branches\<close>

lemma handle_checkin_night:
  "get_time_period (now e) = ''night'' \<Longrightarrow>
   handle_checkin e uid gid f = Inr ([Send_group_msg gid NightRefusal], f)"
  by (simp add: handle_checkin_def)

lemma handle_checkin_missing:
  "get_time_period (now e) \<noteq> ''night'' \<Longrightarrow>
   handle_checkin e uid gid Missing = Inl FileNotFoundError"
  by (simp add: handle_checkin_def load_checkin_data_def)

lemma handle_checkin_corrupt:
  "get_time_period (now e) \<noteq> ''night'' \<Longrightarrow>
   handle_checkin e uid gid Corrupt = Inl JSONDecodeError"
  by (simp add: handle_checkin_def load_checkin_data_def)

lemma handle_checkin_already:
  "get_time_period (now e) \<noteq> ''night'' \<Longrightarrow>
   last_date (get_record d uid gid (strftime_date (now e))) = strftime_date (now e) \<Longrightarrow>
   handle_checkin e uid gid (Content d) = Inr ([Send_group_msg gid AlreadySigned], Content d)"
  by (simp add: handle_checkin_def load_checkin_data_def)

lemma handle_checkin_fresh:
  "get_time_period (now e) \<noteq> ''night'' \<Longrightarrow>
   last_date (get_record d uid gid (strftime_date (now e))) \<noteq> strftime_date (now e) \<Longrightarrow>
   handle_checkin e uid gid (Content d) =
     Inr ([send_checkin_response e gid
             (new_record (now e) (get_record d uid gid (strftime_date (now e))))
             (get_time_period (now e))],
          Content (d(checkin_key uid gid \<mapsto>
             new_record (now e) (get_record d uid gid (strftime_date (now e))))))"
  by (simp add: handle_checkin_def load_checkin_data_def save_checkin_data_def Let_def)

lemma get_time_period_night_iff:
  "get_time_period t = ''night'' \<longleftrightarrow> hour t < 5 \<or> 20 \<le> hour t"
  by (auto simp add: get_time_period_def)

lemma night_at_t_night: "get_time_period (now (env_at t_night)) = ''night''"
  by (simp add: env_at_def t_night_def get_time_period_def)

lemma key_5_7: "checkin_key 5 7 = ''5_7''"
  by code_simp

section \<open>Blackout\<close>

text \<open>
  Claim C3.  When the time-of-day bucket of the call is \<open>night\<close>, \<open>handle_checkin\<close> sends
  the night refusal and nothing else, and returns with the data file exactly as it was:
  whatever the file holds (a record dated today, no record, or no readable document at
  all), since the branch returns before the file is opened, hence before the
  already-checked-in test.
\<close>

theorem handle_checkin_blackout:
  assumes "get_time_period (now e) = ''night''"
  shows "handle_checkin e uid gid f = Inr ([Send_group_msg gid NightRefusal], f)"
  using assms by (rule handle_checkin_night)

theorem handle_checkin_blackout_witness:
  "get_time_period (now (env_at t_night)) = ''night'' \<and>
   store_5_7 (checkin_key 5 7) = Some record_5_7 \<and>
   last_date record_5_7 = strftime_date (now (env_at t_night)) \<and>
   handle_checkin (env_at t_night) 5 7 (Content store_5_7) =
     Inr ([Send_group_msg 7 NightRefusal], Content store_5_7)"
proof -
  have "last_date record_5_7 = strftime_date (now (env_at t_night))"
    by code_simp
  moreover have "store_5_7 (checkin_key 5 7) = Some record_5_7"
    by (simp add: key_5_7 store_5_7_def)
  ultimately show ?thesis
    using handle_checkin_blackout [OF night_at_t_night, of 5 7 "Content store_5_7"]
      night_at_t_night
    by simp
qed

section \<open>The check-in handler: accepted calls\<close>

lemma strftime_date_nonempty: "strftime_date t \<noteq> []"
  by (simp add: strftime_date_def pad4_def)

lemma response_not_rejection:
  "send_checkin_response e gid r p \<noteq> Send_group_msg gid NightRefusal"
  "send_checkin_response e gid r p \<noteq> Send_group_msg gid AlreadySigned"
  by (simp_all add: send_checkin_response_def Let_def)

lemma new_record_fields:
  "last_date (new_record t r) = strftime_date t"
  "total_days (new_record t r) = total_days r + 1"
  "continuous_days (new_record t r) =
     (if last_date r = strftime_date (minus_one_day t) then continuous_days r + 1 else 1)"
  "history (new_record t r) =
     history r @ [\<lparr>date = strftime_date t, time = strftime_time t, period = get_time_period t\<rparr>]"
  "user_id (new_record t r) = user_id r"
  "group_id (new_record t r) = group_id r"
  "first_date (new_record t r) = first_date r"
  by (simp_all add: new_record_def Let_def)

lemma get_record_None:
  "d (checkin_key uid gid) = None \<Longrightarrow>
   get_record d uid gid today =
     \<lparr>user_id = uid, group_id = gid, first_date = today, last_date = [],
      total_days = 0, continuous_days = 0, history = []\<rparr>"
  by (simp add: get_record_def)

lemma get_record_Some:
  "d (checkin_key uid gid) = Some r \<Longrightarrow> get_record d uid gid today = r"
  by (simp add: get_record_def)

text \<open>What a call that was not rejected did.\<close>

lemma handle_checkin_accepted:
  assumes run: "handle_checkin e uid gid f = Inr (out, f')"
    and not_blackout: "out \<noteq> [Send_group_msg gid NightRefusal]"
    and not_already: "out \<noteq> [Send_group_msg gid AlreadySigned]"
  shows "\<exists>d. f = Content d \<and>
     get_time_period (now e) \<noteq> ''night'' \<and>
     last_date (get_record d uid gid (strftime_date (now e))) \<noteq> strftime_date (now e) \<and>
     f' = Content (d(checkin_key uid gid \<mapsto>
            new_record (now e) (get_record d uid gid (strftime_date (now e)))))"
proof -
  have day: "get_time_period (now e) \<noteq> ''night''"
  proof
    assume "get_time_period (now e) = ''night''"
    from handle_checkin_night [OF this, of uid gid f] run not_blackout show False by simp
  qed
  obtain d where f: "f = Content d"
  proof (cases f)
    case Missing
    with handle_checkin_missing [OF day, of uid gid] run show ?thesis by simp
  next
    case Corrupt
    with handle_checkin_corrupt [OF day, of uid gid] run show ?thesis by simp
  next
    case (Content d)
    then show ?thesis by (rule that)
  qed
  have fresh: "last_date (get_record d uid gid (strftime_date (now e))) \<noteq> strftime_date (now e)"
  proof
    assume "last_date (get_record d uid gid (strftime_date (now e))) = strftime_date (now e)"
    from handle_checkin_already [OF day this] run not_already f
    show False by simp
  qed
  from handle_checkin_fresh [OF day fresh] run f
  have "f' = Content (d(checkin_key uid gid \<mapsto>
            new_record (now e) (get_record d uid gid (strftime_date (now e)))))"
    by simp
  with f day fresh show ?thesis by blast
qed

section \<open>Streak\<close>

text \<open>
  Claim C1.  Take a call of \<open>handle_checkin\<close> that succeeds: it returns, and what it sent
  is neither the night refusal nor the already-checked-in answer.  Then the data file
  held a document, and the call wrote it back with the subject's record replaced by a
  new one.  With \<open>old\<close> the record the call found (the stored one, or the fresh one with
  empty last date and zero counters when there was none): the new streak is the old
  streak plus one if the old last date is yesterday's date, and one otherwise; the new
  total is the old total plus one; the new last date is today's date.  For a subject
  with no stored record the new streak and the new total are both one.
\<close>

theorem handle_checkin_streak:
  assumes "handle_checkin e uid gid f = Inr (out, f')"
    and "out \<noteq> [Send_group_msg gid NightRefusal]"
    and "out \<noteq> [Send_group_msg gid AlreadySigned]"
  shows "\<exists>d new. f = Content d \<and> f' = Content (d(checkin_key uid gid \<mapsto> new)) \<and>
     (let old = get_record d uid gid (strftime_date (now e)) in
        continuous_days new =
          (if last_date old = strftime_date (minus_one_day (now e))
           then continuous_days old + 1 else 1) \<and>
        total_days new = total_days old + 1 \<and>
        last_date new = strftime_date (now e)) \<and>
     (d (checkin_key uid gid) = None \<longrightarrow> continuous_days new = 1 \<and> total_days new = 1)"
proof -
  from handle_checkin_accepted [OF assms] obtain d where
    f: "f = Content d" and
    f': "f' = Content (d(checkin_key uid gid \<mapsto>
            new_record (now e) (get_record d uid gid (strftime_date (now e)))))"
    by blast
  define old where "old = get_record d uid gid (strftime_date (now e))"
  have first: "continuous_days (new_record (now e) old) = 1 \<and> total_days (new_record (now e) old) = 1"
    if "d (checkin_key uid gid) = None"
    using that strftime_date_nonempty [of "minus_one_day (now e)"]
    by (simp add: old_def get_record_None new_record_fields del: One_nat_def)
  show ?thesis
    using f f' first
    by (intro exI [of _ d] exI [of _ "new_record (now e) old"])
       (simp add: new_record_fields old_def Let_def)
qed

lemma morning_call:
  "handle_checkin (env_at t_morning) 5 7 (Content Map.empty) =
     Inr ([Send_group_msg 7 (MorningReply ''almanac'' 1 1 2)], Content store_5_7)"
proof -
  have day: "get_time_period (now (env_at t_morning)) \<noteq> ''night''"
    by code_simp
  have old: "get_record Map.empty 5 7 (strftime_date (now (env_at t_morning))) =
      \<lparr>user_id = 5, group_id = 7, first_date = ''2024-03-01'', last_date = [],
       total_days = 0, continuous_days = 0, history = []\<rparr>"
    (is "_ = ?old")
    by (simp add: get_record_def) code_simp
  have fresh: "last_date (get_record Map.empty 5 7 (strftime_date (now (env_at t_morning)))) \<noteq>
      strftime_date (now (env_at t_morning))"
    unfolding old by code_simp
  have new: "new_record (now (env_at t_morning)) ?old = record_5_7"
    by code_simp
  have msg: "send_checkin_response (env_at t_morning) 7 record_5_7
      (get_time_period (now (env_at t_morning))) =
      Send_group_msg 7 (MorningReply ''almanac'' 1 1 2)"
    by code_simp
  from handle_checkin_fresh [OF day fresh]
  show ?thesis
    by (simp only: old new msg key_5_7 store_5_7_def)
qed

lemma next_day_call:
  "handle_checkin (env_at t_next_day) 5 7 (Content store_5_7) =
     Inr ([Send_group_msg 7 (AfternoonReply 2 2 2)], Content [''5_7'' \<mapsto> record_5_7_next])"
proof -
  have day: "get_time_period (now (env_at t_next_day)) \<noteq> ''night''"
    by code_simp
  have old: "get_record store_5_7 5 7 (strftime_date (now (env_at t_next_day))) = record_5_7"
    by (simp add: get_record_def key_5_7 store_5_7_def)
  have fresh: "last_date (get_record store_5_7 5 7 (strftime_date (now (env_at t_next_day)))) \<noteq>
      strftime_date (now (env_at t_next_day))"
    unfolding old by code_simp
  have new: "new_record (now (env_at t_next_day)) record_5_7 = record_5_7_next"
    by code_simp
  have msg: "send_checkin_response (env_at t_next_day) 7 record_5_7_next
      (get_time_period (now (env_at t_next_day))) =
      Send_group_msg 7 (AfternoonReply 2 2 2)"
    by code_simp
  have upd: "store_5_7(''5_7'' \<mapsto> record_5_7_next) = [''5_7'' \<mapsto> record_5_7_next]"
    by (simp add: store_5_7_def)
  from handle_checkin_fresh [OF day fresh]
  show ?thesis
    by (simp only: old new msg key_5_7 upd)
qed

theorem handle_checkin_streak_witness:
  "handle_checkin (env_at t_next_day) 5 7 (Content store_5_7) =
     Inr ([Send_group_msg 7 (AfternoonReply 2 2 2)], Content [''5_7'' \<mapsto> record_5_7_next]) \<and>
   [Send_group_msg 7 (AfternoonReply 2 2 2)] \<noteq> [Send_group_msg 7 NightRefusal] \<and>
   [Send_group_msg 7 (AfternoonReply 2 2 2)] \<noteq> [Send_group_msg 7 AlreadySigned] \<and>
   last_date record_5_7 = strftime_date (minus_one_day (now (env_at t_next_day))) \<and>
   continuous_days record_5_7_next = continuous_days record_5_7 + 1 \<and>
   total_days record_5_7_next = total_days record_5_7 + 1 \<and>
   last_date record_5_7_next = strftime_date (now (env_at t_next_day))"
proof -
  have a: "[Send_group_msg 7 (AfternoonReply 2 2 2)] \<noteq> [Send_group_msg 7 NightRefusal]"
    and b: "[Send_group_msg 7 (AfternoonReply 2 2 2)] \<noteq> [Send_group_msg 7 AlreadySigned]"
    by simp_all
  have yesterday: "last_date record_5_7 = strftime_date (minus_one_day (now (env_at t_next_day)))"
    by code_simp
  from handle_checkin_streak [OF next_day_call a b] obtain d new where
    d: "Content store_5_7 = Content d" and
    new: "Content [''5_7'' \<mapsto> record_5_7_next] = Content (d(checkin_key 5 7 \<mapsto> new))" and
    fields: "let old = get_record d 5 7 (strftime_date (now (env_at t_next_day))) in
        continuous_days new =
          (if last_date old = strftime_date (minus_one_day (now (env_at t_next_day)))
           then continuous_days old + 1 else 1) \<and>
        total_days new = total_days old + 1 \<and>
        last_date new = strftime_date (now (env_at t_next_day))"
    by blast
  from d have d': "d = store_5_7" by simp
  from new have "[''5_7'' \<mapsto> record_5_7_next] ''5_7'' = (d(checkin_key 5 7 \<mapsto> new)) ''5_7''"
    by simp
  then have new': "new = record_5_7_next" by (simp add: key_5_7)
  have old: "get_record store_5_7 5 7 (strftime_date (now (env_at t_next_day))) = record_5_7"
    by (simp add: get_record_def key_5_7 store_5_7_def)
  from fields yesterday have "continuous_days record_5_7_next = continuous_days record_5_7 + 1 \<and>
      total_days record_5_7_next = total_days record_5_7 + 1 \<and>
      last_date record_5_7_next = strftime_date (now (env_at t_next_day))"
    unfolding d' new' old Let_def by simp
  with next_day_call a b yesterday show ?thesis by blast
qed

section \<open>A second check-in on one day\<close>

text \<open>
  Claim C2, amended.  If the subject's stored record has its last date equal to today's
  date, \<open>handle_checkin\<close> sends one rejection and returns with the data file unchanged.
  The rejection is the already-checked-in answer when the time-of-day bucket of the call
  is not \<open>night\<close>, and the night refusal when it is, since the night test comes first.
  In particular, after a call that succeeded, a second call for the same subject at a
  reading with the same date is rejected in this way and leaves the file exactly as the
  first call wrote it.
\<close>

theorem handle_checkin_same_day:
  "(d (checkin_key uid gid) = Some r \<and> last_date r = strftime_date (now e) \<longrightarrow>
      handle_checkin e uid gid (Content d) =
        Inr ([Send_group_msg gid
               (if get_time_period (now e) = ''night'' then NightRefusal else AlreadySigned)],
             Content d)) \<and>
   (handle_checkin e0 uid gid f0 = Inr (out0, f1) \<and>
    out0 \<noteq> [Send_group_msg gid NightRefusal] \<and>
    out0 \<noteq> [Send_group_msg gid AlreadySigned] \<and>
    strftime_date (now e) = strftime_date (now e0) \<longrightarrow>
      handle_checkin e uid gid f1 =
        Inr ([Send_group_msg gid
               (if get_time_period (now e) = ''night'' then NightRefusal else AlreadySigned)],
             f1))"
proof -
  have stored: "handle_checkin e uid gid (Content d) =
        Inr ([Send_group_msg gid
               (if get_time_period (now e) = ''night'' then NightRefusal else AlreadySigned)],
             Content d)"
    if "d (checkin_key uid gid) = Some r" and "last_date r = strftime_date (now e)" for d r
  proof (cases "get_time_period (now e) = ''night''")
    case True
    then show ?thesis by (simp add: handle_checkin_night)
  next
    case False
    from that have "last_date (get_record d uid gid (strftime_date (now e))) = strftime_date (now e)"
      by (simp add: get_record_Some)
    from handle_checkin_already [OF False this] False show ?thesis by simp
  qed
  have twice: "handle_checkin e uid gid f1 =
        Inr ([Send_group_msg gid
               (if get_time_period (now e) = ''night'' then NightRefusal else AlreadySigned)],
             f1)"
    if first: "handle_checkin e0 uid gid f0 = Inr (out0, f1)"
      and a: "out0 \<noteq> [Send_group_msg gid NightRefusal]"
      and b: "out0 \<noteq> [Send_group_msg gid AlreadySigned]"
      and same: "strftime_date (now e) = strftime_date (now e0)"
  proof -
    from handle_checkin_accepted [OF first a b] obtain d0 where
      f1: "f1 = Content (d0(checkin_key uid gid \<mapsto>
            new_record (now e0) (get_record d0 uid gid (strftime_date (now e0)))))"
      by blast
    define r1 where "r1 = new_record (now e0) (get_record d0 uid gid (strftime_date (now e0)))"
    have "last_date r1 = strftime_date (now e)"
      by (simp add: r1_def new_record_fields same)
    moreover have "(d0(checkin_key uid gid \<mapsto> r1)) (checkin_key uid gid) = Some r1"
      by simp
    ultimately show ?thesis
      unfolding f1 r1_def [symmetric] by (rule stored [rotated])
  qed
  from stored twice show ?thesis by blast
qed

text \<open>
  The claim as first stated promises the already-checked-in answer at any time of day.
  At 21:30 on the day of the check-in the handler sends the night refusal instead.
\<close>

theorem handle_checkin_same_day_counterexample:
  "store_5_7 (checkin_key 5 7) = Some record_5_7 \<and>
   last_date record_5_7 = strftime_date (now (env_at t_night)) \<and>
   handle_checkin (env_at t_night) 5 7 (Content store_5_7) \<noteq>
     Inr ([Send_group_msg 7 AlreadySigned], Content store_5_7)"
proof -
  have "last_date record_5_7 = strftime_date (now (env_at t_night))"
    by code_simp
  moreover have "store_5_7 (checkin_key 5 7) = Some record_5_7"
    by (simp add: key_5_7 store_5_7_def)
  moreover have "handle_checkin (env_at t_night) 5 7 (Content store_5_7) =
      Inr ([Send_group_msg 7 NightRefusal], Content store_5_7)"
    using night_at_t_night by (rule handle_checkin_night)
  ultimately show ?thesis by simp
qed

theorem handle_checkin_same_day_witness:
  "store_5_7 (checkin_key 5 7) = Some record_5_7 \<and>
   last_date record_5_7 = strftime_date (now (env_at t_afternoon)) \<and>
   handle_checkin (env_at t_afternoon) 5 7 (Content store_5_7) =
     Inr ([Send_group_msg 7 AlreadySigned], Content store_5_7) \<and>
   handle_checkin (env_at t_morning) 5 7 (Content Map.empty) =
     Inr ([Send_group_msg 7 (MorningReply ''almanac'' 1 1 2)], Content store_5_7) \<and>
   [Send_group_msg 7 (MorningReply ''almanac'' 1 1 2)] \<noteq> [Send_group_msg 7 NightRefusal] \<and>
   [Send_group_msg 7 (MorningReply ''almanac'' 1 1 2)] \<noteq> [Send_group_msg 7 AlreadySigned] \<and>
   strftime_date (now (env_at t_afternoon)) = strftime_date (now (env_at t_morning))"
proof -
  have date: "last_date record_5_7 = strftime_date (now (env_at t_afternoon))"
    by code_simp
  have stored: "store_5_7 (checkin_key 5 7) = Some record_5_7"
    by (simp add: key_5_7 store_5_7_def)
  have same: "strftime_date (now (env_at t_afternoon)) = strftime_date (now (env_at t_morning))"
    by code_simp
  have day: "get_time_period (now (env_at t_afternoon)) \<noteq> ''night''"
    by code_simp
  from handle_checkin_same_day [of store_5_7 5 7 record_5_7 "env_at t_afternoon"
      "env_at t_morning" "Content Map.empty"
      "[Send_group_msg 7 (MorningReply ''almanac'' 1 1 2)]" "Content store_5_7"]
    date stored same day morning_call
  show ?thesis by simp
qed

section \<open>Invariants of the check-in records\<close>

lemma record_ok_new_record:
  assumes "record_ok r"
  shows "record_ok (new_record t r)"
proof -
  from assms have "0 \<le> total_days r" by (auto simp add: record_ok_def)
  with assms show ?thesis
    by (simp add: record_ok_def new_record_fields)
qed

lemma record_ok_get_record:
  assumes "\<forall>k r. d k = Some r \<longrightarrow> record_ok r"
  shows "record_ok (get_record d uid gid today)"
proof (cases "d (checkin_key uid gid)")
  case None
  then show ?thesis by (simp add: get_record_None record_ok_def)
next
  case (Some r)
  with assms show ?thesis by (simp add: get_record_Some)
qed

text \<open>On a document every call returns, and with a document.\<close>

lemma handle_checkin_content:
  "\<exists>out d'. handle_checkin e uid gid (Content d) = Inr (out, Content d') \<and>
     (d' = d \<or> d' = d(checkin_key uid gid \<mapsto>
        new_record (now e) (get_record d uid gid (strftime_date (now e)))))"
proof (cases "get_time_period (now e) = ''night''")
  case True
  then show ?thesis by (simp add: handle_checkin_night)
next
  case day: False
  show ?thesis
  proof (cases "last_date (get_record d uid gid (strftime_date (now e))) = strftime_date (now e)")
    case True
    from handle_checkin_already [OF day True] show ?thesis by simp
  next
    case False
    from handle_checkin_fresh [OF day False] show ?thesis by simp
  qed
qed

lemma handle_checkin_preserves_ok:
  assumes run: "handle_checkin e uid gid (Content d) = Inr (out, Content d')"
    and ok: "\<forall>k r. d k = Some r \<longrightarrow> record_ok r"
  shows "\<forall>k r. d' k = Some r \<longrightarrow> record_ok r"
proof -
  from handle_checkin_content [of e uid gid d] run
  have "d' = d \<or> d' = d(checkin_key uid gid \<mapsto>
        new_record (now e) (get_record d uid gid (strftime_date (now e))))"
    by auto
  then show ?thesis
  proof
    assume "d' = d"
    with ok show ?thesis by simp
  next
    assume d': "d' = d(checkin_key uid gid \<mapsto>
        new_record (now e) (get_record d uid gid (strftime_date (now e))))"
    have "record_ok (new_record (now e) (get_record d uid gid (strftime_date (now e))))"
      by (rule record_ok_new_record) (rule record_ok_get_record [OF ok])
    with ok show ?thesis by (simp add: d')
  qed
qed

lemma handle_checkin_appends:
  assumes run: "handle_checkin e uid gid (Content d) = Inr (out, Content d')"
    and k: "d k = Some r"
  shows "\<exists>r'. d' k = Some r' \<and> prefix (history r) (history r')"
proof -
  from handle_checkin_content [of e uid gid d] run
  have "d' = d \<or> d' = d(checkin_key uid gid \<mapsto>
        new_record (now e) (get_record d uid gid (strftime_date (now e))))"
    by auto
  then show ?thesis
  proof
    assume "d' = d"
    with k show ?thesis by simp
  next
    assume d': "d' = d(checkin_key uid gid \<mapsto>
        new_record (now e) (get_record d uid gid (strftime_date (now e))))"
    show ?thesis
    proof (cases "k = checkin_key uid gid")
      case True
      with k have "get_record d uid gid (strftime_date (now e)) = r"
        by (simp add: get_record_Some)
      with True show ?thesis by (simp add: d' new_record_fields)
    next
      case False
      with k show ?thesis by (simp add: d')
    qed
  qed
qed

lemma run_checkins_ok:
  assumes "\<forall>k r. d k = Some r \<longrightarrow> record_ok r"
  shows "\<exists>d'. run_checkins cs (Content d) = Content d' \<and> (\<forall>k r. d' k = Some r \<longrightarrow> record_ok r)"
  using assms
proof (induction cs arbitrary: d)
  case Nil
  then show ?case by simp
next
  case (Cons c cs)
  obtain e uid gid where c: "c = (e, uid, gid)" by (cases c) auto
  from handle_checkin_content [of e uid gid d] obtain out d1 where
    step: "handle_checkin e uid gid (Content d) = Inr (out, Content d1)" by blast
  from handle_checkin_preserves_ok [OF step Cons.prems]
  have "\<forall>k r. d1 k = Some r \<longrightarrow> record_ok r" .
  from Cons.IH [OF this] show ?case by (simp add: c step)
qed

text \<open>
  Claim C7.  Run any sequence of \<open>handle_checkin\<close> calls, each at its own clock reading
  and for its own subject, from the empty store.  The data file then holds a document,
  and every record in it has its streak at most its total and a history exactly as long
  as its total.  Every further call, whether it succeeds or is rejected, leaves each
  stored record with a history that has the old history as a prefix: entries are added
  at the end, and none is changed or dropped.
\<close>

theorem checkin_invariants:
  "\<exists>d. run_checkins cs (Content Map.empty) = Content d \<and>
     (\<forall>k r. d k = Some r \<longrightarrow>
        continuous_days r \<le> total_days r \<and> int (length (history r)) = total_days r) \<and>
     (\<forall>e uid gid. \<exists>out d'. handle_checkin e uid gid (Content d) = Inr (out, Content d') \<and>
        (\<forall>k r. d k = Some r \<longrightarrow> (\<exists>r'. d' k = Some r' \<and> prefix (history r) (history r'))))"
proof -
  have "\<forall>k r. Map.empty k = Some r \<longrightarrow> record_ok r" by simp
  from run_checkins_ok [OF this, of cs] obtain d where
    d: "run_checkins cs (Content Map.empty) = Content d" and
    ok: "\<forall>k r. d k = Some r \<longrightarrow> record_ok r"
    by blast
  have "\<exists>out d'. handle_checkin e uid gid (Content d) = Inr (out, Content d') \<and>
        (\<forall>k r. d k = Some r \<longrightarrow> (\<exists>r'. d' k = Some r' \<and> prefix (history r) (history r')))"
    for e uid gid
  proof -
    from handle_checkin_content [of e uid gid d] obtain out d' where
      step: "handle_checkin e uid gid (Content d) = Inr (out, Content d')" by blast
    with handle_checkin_appends [OF step] show ?thesis by blast
  qed
  with d ok show ?thesis unfolding record_ok_def by blast
qed

lemma run_two_calls:
  "run_checkins [(env_at t_morning, 5, 7), (env_at t_next_day, 5, 7)] (Content Map.empty) =
     Content [''5_7'' \<mapsto> record_5_7_next]"
  by (simp add: morning_call next_day_call)

theorem checkin_invariants_witness:
  "run_checkins [(env_at t_morning, 5, 7), (env_at t_next_day, 5, 7)] (Content Map.empty) =
     Content [''5_7'' \<mapsto> record_5_7_next] \<and>
   [''5_7'' \<mapsto> record_5_7_next] ''5_7'' = Some record_5_7_next \<and>
   continuous_days record_5_7_next \<le> total_days record_5_7_next \<and>
   int (length (history record_5_7_next)) = total_days record_5_7_next \<and>
   (\<exists>out d'. handle_checkin (env_at t_later) 5 7 (Content [''5_7'' \<mapsto> record_5_7_next]) =
        Inr (out, Content d') \<and>
      (\<exists>r'. d' ''5_7'' = Some r' \<and> prefix (history record_5_7_next) (history r')))"
proof -
  from checkin_invariants [of "[(env_at t_morning, 5, 7), (env_at t_next_day, 5, 7)]"]
  obtain d where
    d: "run_checkins [(env_at t_morning, 5, 7), (env_at t_next_day, 5, 7)] (Content Map.empty) =
      Content d" and
    ok: "\<forall>k r. d k = Some r \<longrightarrow>
        continuous_days r \<le> total_days r \<and> int (length (history r)) = total_days r" and
    app: "\<forall>e uid gid. \<exists>out d'. handle_checkin e uid gid (Content d) = Inr (out, Content d') \<and>
        (\<forall>k r. d k = Some r \<longrightarrow> (\<exists>r'. d' k = Some r' \<and> prefix (history r) (history r')))"
    by blast
  from d run_two_calls have eq: "d = [''5_7'' \<mapsto> record_5_7_next]" by simp
  have stored: "[''5_7'' \<mapsto> record_5_7_next] ''5_7'' = Some record_5_7_next" by simp
  from ok stored have inv: "continuous_days record_5_7_next \<le> total_days record_5_7_next \<and>
      int (length (history record_5_7_next)) = total_days record_5_7_next"
    unfolding eq by blast
  from app [unfolded eq] stored
  have "\<exists>out d'. handle_checkin (env_at t_later) 5 7 (Content [''5_7'' \<mapsto> record_5_7_next]) =
        Inr (out, Content d') \<and>
      (\<exists>r'. d' ''5_7'' = Some r' \<and> prefix (history record_5_7_next) (history r'))"
    by blast
  with run_two_calls stored inv show ?thesis by blast
qed

section \<open>The blacklist\<close>

lemma users_ok_iff: "users_ok s \<longleftrightarrow> (\<exists>us. blacklist_users s = Inr us \<and> distinct us)"
  by (auto simp add: users_ok_def blacklist_users_def split: option.splits)

lemma blacklist_users_store [simp]: "blacklist_users (store_users s us) = Inr us"
  by (simp add: blacklist_users_def store_users_def Let_def)

lemma init_missing: "init_config_manager Missing =
   \<lparr>blacklist = default_blacklist, blacklist_json = Content default_blacklist\<rparr>"
  by (simp add: init_config_manager_def ensure_data_file_def load_json_def)

lemma users_ok_init: "users_ok (init_config_manager Missing)"
  by (simp add: init_missing users_ok_def default_blacklist_def)

lemma add_ok:
  assumes "users_ok s"
  shows "\<exists>s'. add_to_blacklist u s = Inr s' \<and> users_ok s' \<and> is_blacklisted u s' = Inr True \<and>
     add_to_blacklist u s' = Inr s'"
proof -
  from assms obtain us where us: "blacklist_users s = Inr us" "distinct us"
    by (auto simp add: users_ok_iff)
  show ?thesis
  proof (cases "u \<in> set us")
    case True
    with us assms show ?thesis
      by (simp add: add_to_blacklist_def is_blacklisted_def)
  next
    case False
    with us show ?thesis
      by (simp add: add_to_blacklist_def is_blacklisted_def users_ok_iff)
  qed
qed

lemma remove_ok:
  assumes "users_ok s"
  shows "\<exists>s'. remove_from_blacklist u s = Inr s' \<and> users_ok s' \<and> is_blacklisted u s' = Inr False"
proof -
  from assms obtain us where us: "blacklist_users s = Inr us" "distinct us"
    by (auto simp add: users_ok_iff)
  show ?thesis
  proof (cases "u \<in> set us")
    case True
    with us show ?thesis
      by (simp add: remove_from_blacklist_def is_blacklisted_def users_ok_iff)
  next
    case False
    with us assms show ?thesis
      by (simp add: remove_from_blacklist_def is_blacklisted_def)
  qed
qed

lemma run_blacklist_ok:
  assumes "users_ok s"
  shows "\<exists>s'. run_blacklist ops s = Inr s' \<and> users_ok s'"
  using assms
proof (induction ops arbitrary: s)
  case Nil
  then show ?case by simp
next
  case (Cons op ops)
  show ?case
  proof (cases op)
    case (Add u)
    from add_ok [OF Cons.prems, of u] obtain s1 where
      "add_to_blacklist u s = Inr s1" "users_ok s1" by blast
    with Cons.IH [of s1] Add show ?thesis by simp
  next
    case (Remove u)
    from remove_ok [OF Cons.prems, of u] obtain s1 where
      "remove_from_blacklist u s = Inr s1" "users_ok s1" by blast
    with Cons.IH [of s1] Remove show ?thesis by simp
  qed
qed

text \<open>
  Claim C10, amended.  A manager started on a fresh data directory has a \<open>"users"\<close> list,
  the empty one.  For every user id and every blacklist state whose document has a
  \<open>"users"\<close> list in which no id occurs twice: \<open>add_to_blacklist\<close> leads to a state
  where \<open>is_blacklisted\<close> answers true and where a second \<open>add_to_blacklist\<close> changes
  nothing; \<open>remove_from_blacklist\<close> leads to a state where \<open>is_blacklisted\<close> answers
  false; and every sequence of \<open>add_to_blacklist\<close> and \<open>remove_from_blacklist\<close> calls
  runs without an exception and ends in a state whose \<open>"users"\<close> list holds no id twice.
\<close>

theorem blacklist_consistent:
  "blacklist (init_config_manager Missing) ''users'' = Some [] \<and>
   (blacklist s ''users'' = Some us \<and> distinct us \<longrightarrow>
      (\<exists>s1. add_to_blacklist u s = Inr s1 \<and> is_blacklisted u s1 = Inr True \<and>
         add_to_blacklist u s1 = Inr s1) \<and>
      (\<exists>s2. remove_from_blacklist u s = Inr s2 \<and> is_blacklisted u s2 = Inr False) \<and>
      (\<exists>s' us'. run_blacklist ops s = Inr s' \<and> blacklist s' ''users'' = Some us' \<and>
         distinct us'))"
proof -
  have fresh: "blacklist (init_config_manager Missing) ''users'' = Some []"
    by (simp add: init_missing default_blacklist_def)
  have "(\<exists>s1. add_to_blacklist u s = Inr s1 \<and> is_blacklisted u s1 = Inr True \<and>
         add_to_blacklist u s1 = Inr s1) \<and>
      (\<exists>s2. remove_from_blacklist u s = Inr s2 \<and> is_blacklisted u s2 = Inr False) \<and>
      (\<exists>s' us'. run_blacklist ops s = Inr s' \<and> blacklist s' ''users'' = Some us' \<and>
         distinct us')"
    if "blacklist s ''users'' = Some us" and "distinct us"
  proof -
    from that have ok: "users_ok s" by (simp add: users_ok_def)
    from run_blacklist_ok [OF ok, of ops] obtain s' where
      s': "run_blacklist ops s = Inr s'" and ok': "users_ok s'"
      by blast
    from ok' obtain us' where "blacklist s' ''users'' = Some us'" "distinct us'"
      by (auto simp add: users_ok_def split: option.splits)
    with s' add_ok [OF ok, of u] remove_ok [OF ok, of u] show ?thesis by blast
  qed
  with fresh show ?thesis by blast
qed

text \<open>
  The claim as first stated is for every blacklist state.  A manager started on a
  \<open>blacklist.json\<close> that lists the id 5 twice still has 5 blacklisted after
  \<open>remove_from_blacklist(5)\<close>, which takes out the first occurrence only; and a manager
  started on a corrupt \<open>blacklist.json\<close> holds the document \<open>{}\<close>, on which
  \<open>add_to_blacklist\<close> raises \<open>KeyError\<close>.
\<close>

theorem blacklist_consistent_counterexample:
  "remove_from_blacklist 5 loaded_duplicates = Inr (store_users loaded_duplicates [5]) \<and>
   is_blacklisted 5 (store_users loaded_duplicates [5]) = Inr True \<and>
   add_to_blacklist 5 loaded_corrupt = Inl KeyError"
proof -
  have "blacklist_users loaded_duplicates = Inr [5, 5]"
    by (simp add: loaded_duplicates_def init_config_manager_def ensure_data_file_def
        load_json_def blacklist_users_def duplicate_blacklist_def)
  then have "remove_from_blacklist 5 loaded_duplicates = Inr (store_users loaded_duplicates [5])"
    by (simp add: remove_from_blacklist_def)
  moreover have "is_blacklisted 5 (store_users loaded_duplicates [5]) = Inr True"
    by (simp add: is_blacklisted_def)
  moreover have "blacklist_users loaded_corrupt = Inl KeyError"
    by (simp add: loaded_corrupt_def init_config_manager_def ensure_data_file_def
        load_json_def blacklist_users_def)
  then have "add_to_blacklist 5 loaded_corrupt = Inl KeyError"
    by (simp add: add_to_blacklist_def)
  ultimately show ?thesis by simp
qed

theorem blacklist_consistent_witness:
  "blacklist listed_5_9 ''users'' = Some [5, 9] \<and>
   distinct [5, 9 :: int] \<and>
   add_to_blacklist 9 listed_5_9 = Inr listed_5_9 \<and>
   is_blacklisted 9 listed_5_9 = Inr True \<and>
   remove_from_blacklist 9 listed_5_9 = Inr (store_users listed_5_9 [5]) \<and>
   is_blacklisted 9 (store_users listed_5_9 [5]) = Inr False \<and>
   run_blacklist [Remove 5, Add 7, Add 5, Add 7] listed_5_9 =
     Inr (store_users (store_users (store_users listed_5_9 [9]) [9, 7]) [9, 7, 5]) \<and>
   blacklist (store_users (store_users (store_users listed_5_9 [9]) [9, 7]) [9, 7, 5]) ''users'' =
     Some [9, 7, 5] \<and>
   distinct [9, 7, 5 :: int]"
proof -
  have users: "blacklist listed_5_9 ''users'' = Some [5, 9]"
    by (simp add: listed_5_9_def store_users_def Let_def)
  have dist: "distinct [5, 9 :: int]" by simp
  have listed: "blacklist_users listed_5_9 = Inr [5, 9]"
    by (simp add: listed_5_9_def)
  have add: "add_to_blacklist 9 listed_5_9 = Inr listed_5_9"
    by (simp add: add_to_blacklist_def listed)
  have remove: "remove_from_blacklist 9 listed_5_9 = Inr (store_users listed_5_9 [5])"
    by (simp add: remove_from_blacklist_def listed)
  have run: "run_blacklist [Remove 5, Add 7, Add 5, Add 7] listed_5_9 =
     Inr (store_users (store_users (store_users listed_5_9 [9]) [9, 7]) [9, 7, 5])"
    by (simp add: remove_from_blacklist_def add_to_blacklist_def listed)
  from blacklist_consistent [of listed_5_9 "[5, 9]" 9 "[Remove 5, Add 7, Add 5, Add 7]"]
    users dist
  obtain s1 s2 s' us' where
    "add_to_blacklist 9 listed_5_9 = Inr s1" "is_blacklisted 9 s1 = Inr True" and
    "remove_from_blacklist 9 listed_5_9 = Inr s2" "is_blacklisted 9 s2 = Inr False" and
    "run_blacklist [Remove 5, Add 7, Add 5, Add 7] listed_5_9 = Inr s'"
    "blacklist s' ''users'' = Some us'" "distinct us'"
    by blast
  with add remove run have "is_blacklisted 9 listed_5_9 = Inr True"
    and "is_blacklisted 9 (store_users listed_5_9 [5]) = Inr False"
    and "blacklist (store_users (store_users (store_users listed_5_9 [9]) [9, 7]) [9, 7, 5])
      ''users'' = Some us'"
    and "distinct us'"
    by simp_all
  moreover have "blacklist (store_users (store_users (store_users listed_5_9 [9]) [9, 7]) [9, 7, 5])
      ''users'' = Some [9, 7, 5]"
    by (simp add: store_users_def Let_def)
  ultimately show ?thesis
    using users dist add remove run by simp
qed

section \<open>Loading a missing or corrupt file\<close>

text \<open>
  Claim C6.  \<open>_load_json\<close> of the configuration manager answers a missing file and a
  corrupt file with the empty object.  \<open>_load_checkin_data\<close> of the check-in handler has
  no such recovery: on a missing file it raises \<open>FileNotFoundError\<close>, on a corrupt one
  \<open>JSONDecodeError\<close>, and the exception leaves \<open>handle_checkin\<close>, here at 09:05 for user
  5 in group 7.  The recovery of \<open>_load_json\<close> is the empty object also for the
  blacklist, whose default has a \<open>"users"\<close> list: on a corrupt \<open>blacklist.json\<close> the
  manager starts with \<open>{}\<close>, and \<open>add_to_blacklist\<close> raises \<open>KeyError\<close>.
\<close>

theorem load_checkin_data_raises:
  "load_json (Missing :: checkin_data json_file) = Map.empty \<and>
   load_json (Corrupt :: checkin_data json_file) = Map.empty \<and>
   load_checkin_data Missing = Inl FileNotFoundError \<and>
   load_checkin_data Corrupt = Inl JSONDecodeError \<and>
   handle_checkin (env_at t_morning) 5 7 Missing = Inl FileNotFoundError \<and>
   handle_checkin (env_at t_morning) 5 7 Corrupt = Inl JSONDecodeError \<and>
   blacklist (init_config_manager Corrupt) = Map.empty \<and>
   add_to_blacklist 5 (init_config_manager Corrupt) = Inl KeyError"
proof -
  have day: "get_time_period (now (env_at t_morning)) \<noteq> ''night''"
    by (simp add: env_at_def t_morning_def get_time_period_def)
  have "blacklist (init_config_manager Corrupt) = Map.empty"
    by (simp add: init_config_manager_def ensure_data_file_def load_json_def)
  then have "add_to_blacklist 5 (init_config_manager Corrupt) = Inl KeyError"
    by (simp add: add_to_blacklist_def blacklist_users_def)
  with day show ?thesis
    by (simp add: load_json_def load_checkin_data_def handle_checkin_missing
        handle_checkin_corrupt init_config_manager_def ensure_data_file_def)
qed

section \<open>Admin commands and senders who are not admins\<close>

text \<open>An admin who sends the phrase that turns join-request approval on is answered,
  and the configuration changes.\<close>

lemma strip_phrase: "strip phrase_approve_on = phrase_approve_on"
  by (simp add: strip_def phrase_approve_on_def isspace_def)

lemma admin_answered:
  "check_developer_commands lib config_100 (GroupMessageEvent 100 7 phrase_approve_on) =
     Inr (True,
          [Save_config (config_100\<lparr>group_approve_mode := True\<rparr>),
           Send (GroupMessageEvent 100 7 phrase_approve_on) ApproveOn],
          config_100\<lparr>group_approve_mode := True\<rparr>)"
proof -
  have "is_admin config_100 100"
    by (simp add: is_admin_def is_master_def config_100_def)
  moreover have "\<not> startswith phrase_approve_on phrase_agent_add"
    "\<not> startswith phrase_approve_on phrase_agent_remove"
    by (simp_all add: startswith_def phrase_approve_on_def phrase_agent_add_def
        phrase_agent_remove_def)
  ultimately show ?thesis
    by (simp add: check_developer_commands_def strip_phrase Let_def)
qed

text \<open>
  Claim C9.  For a message event whose sender is neither the owner nor a delegate:
  \<open>check_developer_commands\<close> returns \<open>False\<close>, sends nothing, saves nothing and leaves
  the configuration as it is; \<open>handle_developer\<close>, the admin menu, sends nothing; and
  the result of \<open>check_developer_commands\<close> is the same for every event of that sender,
  whatever its text and class, so it does not tell whether the text was an admin phrase.
\<close>

theorem non_admin_silent:
  assumes "\<not> is_admin c (event_user_id ev)"
  shows "check_developer_commands lib c ev = Inr (False, [], c) \<and>
         handle_developer c (event_user_id ev) = [] \<and>
         (\<forall>ev'. event_user_id ev' = event_user_id ev \<longrightarrow>
            check_developer_commands lib c ev' = check_developer_commands lib c ev)"
proof -
  have silent: "check_developer_commands lib c ev' = Inr (False, [], c)"
    if "event_user_id ev' = event_user_id ev" for ev'
    using that assms by (simp add: check_developer_commands_def)
  from silent [of ev] silent assms show ?thesis
    by (simp add: handle_developer_def)
qed

theorem non_admin_silent_witness:
  "\<not> is_admin config_100 (event_user_id (GroupMessageEvent 300 7 phrase_approve_on)) \<and>
   check_developer_commands ascii_lib config_100 (GroupMessageEvent 300 7 phrase_approve_on) =
     Inr (False, [], config_100) \<and>
   handle_developer config_100 300 = [] \<and>
   event_user_id (PrivateMessageEvent 300 [0x68, 0x69]) =
     event_user_id (GroupMessageEvent 300 7 phrase_approve_on) \<and>
   check_developer_commands ascii_lib config_100 (PrivateMessageEvent 300 [0x68, 0x69]) =
     check_developer_commands ascii_lib config_100 (GroupMessageEvent 300 7 phrase_approve_on)"
proof -
  have "\<not> is_admin config_100 (event_user_id (GroupMessageEvent 300 7 phrase_approve_on))"
    by (simp add: is_admin_def is_master_def is_agent_def config_100_def)
  from non_admin_silent [OF this, of ascii_lib] this show ?thesis by simp
qed

section \<open>Binary64 rounding\<close>

lemma ilog2_lower:
  assumes "0 < x"
  shows "2 powi (ilog2 x) \<le> x"
proof -
  obtain p q where pq: "quotient_of x = (p, q)" by (cases "quotient_of x")
  then have q: "0 < q" by (rule quotient_of_denom_pos)
  from pq have x: "x = of_int p / of_int q" by (rule quotient_of_div)
  with assms q have p: "0 < p" by (simp add: zero_less_divide_iff)
  define e where "e = bitlen p - bitlen q"
  show ?thesis
  proof (cases "2 powi e \<le> x")
    case True
    then show ?thesis by (simp add: ilog2_def pq e_def)
  next
    case False
    from bitlen_bounds [OF p] have "2 ^ nat (bitlen p - 1) \<le> p" by simp
    then have "(of_int (2 ^ nat (bitlen p - 1)) :: rat) \<le> of_int p" by (simp only: of_int_le_iff)
    then have plo: "(2 :: rat) ^ nat (bitlen p - 1) \<le> of_int p" by simp
    from bitlen_bounds [OF q] have "q < 2 ^ nat (bitlen q)" by simp
    then have "(of_int q :: rat) < of_int (2 ^ nat (bitlen q))" by (simp only: of_int_less_iff)
    then have qhi: "(of_int q :: rat) \<le> 2 ^ nat (bitlen q)" by simp
    from p have bp: "1 \<le> bitlen p" by (simp add: bitlen_alt_def)
    have bq: "0 \<le> bitlen q" by (rule bitlen_nonneg)
    have "(2 :: rat) powi ((bitlen p - 1) - bitlen q) = 2 powi (bitlen p - 1) / 2 powi (bitlen q)"
      by (rule power_int_diff) simp
    moreover have "e - 1 = (bitlen p - 1) - bitlen q" by (simp add: e_def)
    ultimately have "2 powi (e - 1) = (2 :: rat) powi (bitlen p - 1) / 2 powi (bitlen q)"
      by (simp only:)
    also have "\<dots> = (2 :: rat) ^ nat (bitlen p - 1) / 2 ^ nat (bitlen q)"
      using bp bq by (simp add: power_int_def)
    also have "\<dots> \<le> of_int p / of_int q"
      using plo qhi q p by (intro frac_le) simp_all
    finally have "2 powi (e - 1) \<le> x" by (simp add: x)
    with False show ?thesis by (simp add: ilog2_def pq e_def)
  qed
qed

lemma round_even_error: "\<bar>of_int (round_even y) - y\<bar> \<le> 1 / 2"
proof -
  define f where "f = \<lfloor>y\<rfloor>"
  define r where "r = y - of_int f"
  have "0 \<le> r" "r < 1" unfolding r_def f_def by linarith+
  then show ?thesis
    unfolding round_even_def Let_def f_def [symmetric] r_def [symmetric]
    by (auto simp add: r_def abs_le_iff)
qed

lemma round64_error: "\<bar>round64 x - x\<bar> \<le> unit_roundoff * \<bar>x\<bar>"
proof (cases "x = 0")
  case True
  then show ?thesis by (simp add: round64_def)
next
  case False
  define s :: rat where "s = 2 powi (ilog2 \<bar>x\<bar> - 52)"
  have s: "0 < s" by (simp add: s_def)
  define y where "y = x / s"
  from False have "0 < \<bar>x\<bar>" by simp
  from ilog2_lower [OF this] have "2 powi (ilog2 \<bar>x\<bar>) \<le> \<bar>x\<bar>" .
  moreover have "(2 :: rat) powi (ilog2 \<bar>x\<bar>) = s * 2 ^ 52"
    by (simp add: s_def power_int_diff)
  ultimately have big: "s * 2 ^ 52 \<le> \<bar>x\<bar>" by simp
  have "round64 x = of_int (round_even y) * s"
    using False by (simp add: round64_def Let_def s_def y_def)
  moreover have "x = y * s" using s by (simp add: y_def)
  ultimately have "round64 x - x = (of_int (round_even y) - y) * s"
    by (simp only: left_diff_distrib)
  then have "\<bar>round64 x - x\<bar> = \<bar>of_int (round_even y) - y\<bar> * s"
    using s by (simp add: abs_mult)
  also have "\<dots> \<le> (1 / 2) * s"
    using round_even_error [of y] s by (intro mult_right_mono) simp_all
  also have "\<dots> \<le> unit_roundoff * \<bar>x\<bar>"
    using big by (simp add: unit_roundoff_def field_simps)
  finally show ?thesis .
qed

lemma round64_bounds:
  assumes "0 \<le> x"
  shows "(1 - unit_roundoff) * x \<le> round64 x" and "round64 x \<le> (1 + unit_roundoff) * x"
proof -
  from round64_error [of x] assms have "\<bar>round64 x - x\<bar> \<le> unit_roundoff * x" by simp
  then show "(1 - unit_roundoff) * x \<le> round64 x" and "round64 x \<le> (1 + unit_roundoff) * x"
    by (simp_all add: abs_le_iff algebra_simps)
qed

lemma left_to_right_sum_bounds:
  assumes "0 \<le> a" and "\<forall>x \<in> set xs. 0 \<le> x"
  shows "(1 - unit_roundoff) ^ length xs * (a + sum_list xs) \<le> foldl (\<lambda>a x. round64 (a + x)) a xs \<and>
         foldl (\<lambda>a x. round64 (a + x)) a xs \<le> (1 + unit_roundoff) ^ length xs * (a + sum_list xs)"
  using assms
proof (induction xs arbitrary: a)
  case Nil
  then show ?case by simp
next
  case (Cons x xs)
  define u where "u = unit_roundoff"
  have u: "0 \<le> u" "u \<le> 1" by (simp_all add: u_def unit_roundoff_def)
  define n where "n = length xs"
  define S where "S = sum_list xs"
  define b where "b = round64 (a + x)"
  from Cons.prems have ax: "0 \<le> a + x" and xs: "\<forall>x \<in> set xs. 0 \<le> x" by simp_all
  from xs have S: "0 \<le> S" unfolding S_def by (simp add: sum_list_nonneg)
  from round64_bounds [OF ax] have b: "(1 - u) * (a + x) \<le> b" "b \<le> (1 + u) * (a + x)"
    by (simp_all add: b_def u_def)
  have b0: "0 \<le> b"
  proof -
    have "0 \<le> (1 - u) * (a + x)" using u ax by (intro mult_nonneg_nonneg) simp_all
    with b(1) show ?thesis by simp
  qed
  from Cons.IH [OF b0 xs]
  have IH: "(1 - u) ^ n * (b + S) \<le> foldl (\<lambda>a x. round64 (a + x)) b xs"
    "foldl (\<lambda>a x. round64 (a + x)) b xs \<le> (1 + u) ^ n * (b + S)"
    by (simp_all add: u_def n_def S_def)
  have lo: "(1 - u) ^ Suc n * (a + x + S) \<le> (1 - u) ^ n * (b + S)"
  proof -
    have "(1 - u) * S \<le> S" using u S by (simp add: mult_left_le_one_le)
    with b(1) have "(1 - u) * (a + x + S) \<le> b + S" by (simp add: algebra_simps)
    moreover have "0 \<le> (1 - u) ^ n" using u by simp
    ultimately have "(1 - u) ^ n * ((1 - u) * (a + x + S)) \<le> (1 - u) ^ n * (b + S)"
      by (rule mult_left_mono)
    then show ?thesis by (simp add: mult.assoc mult.left_commute)
  qed
  have hi: "(1 + u) ^ n * (b + S) \<le> (1 + u) ^ Suc n * (a + x + S)"
  proof -
    have "S \<le> (1 + u) * S" using u S by (simp add: algebra_simps)
    with b(2) have "b + S \<le> (1 + u) * (a + x + S)" by (simp add: algebra_simps)
    moreover have "0 \<le> (1 + u) ^ n" using u by simp
    ultimately have "(1 + u) ^ n * (b + S) \<le> (1 + u) ^ n * ((1 + u) * (a + x + S))"
      by (rule mult_left_mono)
    then show ?thesis by (simp add: mult.assoc mult.left_commute)
  qed
  from lo IH(1) have "(1 - u) ^ Suc n * (a + x + S) \<le> foldl (\<lambda>a x. round64 (a + x)) b xs"
    by (rule order_trans)
  moreover from IH(2) hi have "foldl (\<lambda>a x. round64 (a + x)) b xs \<le> (1 + u) ^ Suc n * (a + x + S)"
    by (rule order_trans)
  ultimately show ?case
    by (simp add: b_def u_def n_def S_def add.assoc)
qed

lemma five_roundings:
  assumes "n \<le> 5"
  shows "1 - 8 * unit_roundoff \<le> (1 - unit_roundoff) ^ n"
    and "(1 + unit_roundoff) ^ n \<le> 1 + 8 * unit_roundoff"
proof -
  have "(1 - unit_roundoff) ^ 5 \<le> (1 - unit_roundoff) ^ n"
    using assms by (intro power_decreasing) (simp_all add: unit_roundoff_def)
  moreover have "1 - 8 * unit_roundoff \<le> (1 - unit_roundoff) ^ 5"
    by (simp add: unit_roundoff_def power_divide)
  ultimately show "1 - 8 * unit_roundoff \<le> (1 - unit_roundoff) ^ n" by simp
  have "(1 + unit_roundoff) ^ n \<le> (1 + unit_roundoff) ^ 5"
    using assms by (intro power_increasing) (simp_all add: unit_roundoff_def)
  moreover have "(1 + unit_roundoff) ^ 5 \<le> 1 + 8 * unit_roundoff"
    by (simp add: unit_roundoff_def power_divide)
  ultimately show "(1 + unit_roundoff) ^ n \<le> 1 + 8 * unit_roundoff" by simp
qed

lemma left_to_right_sum_error:
  assumes len: "length xs \<le> 5" and nonneg: "\<forall>x \<in> set xs. 0 \<le> x"
  shows "\<bar>foldl (\<lambda>a x. round64 (a + x)) 0 xs - sum_list xs\<bar> \<le> 8 * unit_roundoff * sum_list xs"
proof -
  define S where "S = sum_list xs"
  define F where "F = foldl (\<lambda>a x. round64 (a + x)) 0 xs"
  from nonneg have S: "0 \<le> S" unfolding S_def by (simp add: sum_list_nonneg)
  from left_to_right_sum_bounds [OF order_refl nonneg]
  have F: "(1 - unit_roundoff) ^ length xs * S \<le> F" "F \<le> (1 + unit_roundoff) ^ length xs * S"
    by (simp_all add: F_def S_def)
  from five_roundings [OF len]
  have "(1 - 8 * unit_roundoff) * S \<le> (1 - unit_roundoff) ^ length xs * S"
    and "(1 + unit_roundoff) ^ length xs * S \<le> (1 + 8 * unit_roundoff) * S"
    using S by (simp_all add: mult_right_mono)
  with F have "(1 - 8 * unit_roundoff) * S \<le> F" "F \<le> (1 + 8 * unit_roundoff) * S"
    by simp_all
  then have "\<bar>F - S\<bar> \<le> 8 * unit_roundoff * S"
    by (simp add: abs_le_iff algebra_simps)
  then show ?thesis by (simp only: F_def S_def)
qed

lemma rounds_correctly_binary64: "rounds_correctly binary64_ops"
proof -
  have "\<bar>round64 x - x\<bar> \<le> unit_roundoff * x" if "0 \<le> x" for x
    using round64_error [of x] that by simp
  moreover have "\<bar>round64 (x + y) - (x + y)\<bar> \<le> unit_roundoff * \<bar>x + y\<bar>" for x y
    by (rule round64_error)
  moreover have "\<bar>round64 (x / y) - x / y\<bar> \<le> unit_roundoff * \<bar>x / y\<bar>" for x y
    by (rule round64_error)
  ultimately show ?thesis
    using left_to_right_sum_error
    by (simp add: rounds_correctly_def binary64_ops_def)
qed

lemma ilog2_upper:
  assumes "0 < x"
  shows "x < 2 powi (ilog2 x + 1)"
proof -
  obtain p q where pq: "quotient_of x = (p, q)" by (cases "quotient_of x")
  then have q: "0 < q" by (rule quotient_of_denom_pos)
  from pq have x: "x = of_int p / of_int q" by (rule quotient_of_div)
  with assms q have p: "0 < p" by (simp add: zero_less_divide_iff)
  define e where "e = bitlen p - bitlen q"
  show ?thesis
  proof (cases "2 powi e \<le> x")
    case True
    from bitlen_bounds [OF p] have "p < 2 ^ nat (bitlen p)" by simp
    then have "(of_int p :: rat) < of_int (2 ^ nat (bitlen p))" by (simp only: of_int_less_iff)
    then have phi: "(of_int p :: rat) < 2 ^ nat (bitlen p)" by simp
    from bitlen_bounds [OF q] have "2 ^ nat (bitlen q - 1) \<le> q" by simp
    then have "(of_int (2 ^ nat (bitlen q - 1)) :: rat) \<le> of_int q" by (simp only: of_int_le_iff)
    then have qlo: "(2 :: rat) ^ nat (bitlen q - 1) \<le> of_int q" by simp
    from q have bq: "1 \<le> bitlen q" by (simp add: bitlen_alt_def)
    have bp: "0 \<le> bitlen p" by (rule bitlen_nonneg)
    have "of_int p / of_int q < (2 :: rat) ^ nat (bitlen p) / 2 ^ nat (bitlen q - 1)"
      using phi qlo q p by (intro frac_less) simp_all
    also have "\<dots> = (2 :: rat) powi (bitlen p) / 2 powi (bitlen q - 1)"
      using bp bq by (simp add: power_int_def)
    also have "\<dots> = (2 :: rat) powi (bitlen p - (bitlen q - 1))"
      by (rule power_int_diff [symmetric]) simp
    also have "bitlen p - (bitlen q - 1) = e + 1" by (simp add: e_def)
    finally have "x < 2 powi (e + 1)" by (simp add: x)
    with True show ?thesis by (simp add: ilog2_def pq e_def)
  next
    case False
    then show ?thesis by (simp add: ilog2_def pq e_def)
  qed
qed

lemma power_int_2_less_imp:
  assumes "(2 :: rat) powi m < 2 powi n"
  shows "m < n"
proof (rule ccontr)
  assume "\<not> m < n"
  then have "n \<le> m" by simp
  then have "(2 :: rat) powi n \<le> 2 powi m" by (rule power_int_increasing) simp
  with assms show False by simp
qed

lemma ilog2_eqI:
  assumes lo: "2 powi e \<le> x" and hi: "x < 2 powi (e + 1)"
  shows "ilog2 x = e"
proof -
  have "(0 :: rat) < 2 powi e" by simp
  with lo have x: "0 < x" by linarith
  note l = ilog2_lower [OF x] and u = ilog2_upper [OF x]
  from l hi have "(2 :: rat) powi ilog2 x < 2 powi (e + 1)" by (rule le_less_trans)
  then have "ilog2 x < e + 1" by (rule power_int_2_less_imp)
  moreover from lo u have "(2 :: rat) powi e < 2 powi (ilog2 x + 1)" by (rule le_less_trans)
  then have "e < ilog2 x + 1" by (rule power_int_2_less_imp)
  ultimately show ?thesis by simp
qed

lemma round_even_eqI:
  assumes "\<bar>y - of_int m\<bar> < 1 / 2"
  shows "round_even y = m"
proof -
  define f where "f = \<lfloor>y\<rfloor>"
  define r where "r = y - of_int f"
  have r: "0 \<le> r" "r < 1" unfolding r_def f_def by linarith+
  have y: "y = of_int f + r" by (simp add: r_def)
  from assms have "of_int m - 1 / 2 < y" "y < of_int m + 1 / 2"
    by linarith+
  then have m: "of_int m - 1 / 2 < (of_int f :: rat) + r" "(of_int f :: rat) + r < of_int m + 1 / 2"
    by (simp_all only: y [symmetric])
  have int_less: "a < b" if "(of_int a :: rat) < of_int b" for a b :: int
    using that by (simp only: of_int_less_iff)
  consider "r < 1 / 2" | "1 / 2 < r" | "r = 1 / 2" by linarith
  then show ?thesis
  proof cases
    case 1
    with m r have "(of_int (m - 1) :: rat) < of_int f" "(of_int f :: rat) < of_int (m + 1)"
      by simp_all
    then have "m - 1 < f" "f < m + 1" by (simp_all only: of_int_less_iff)
    then have "f = m" by simp
    with 1 show ?thesis
      unfolding round_even_def Let_def f_def [symmetric] r_def [symmetric] by simp
  next
    case 2
    with m r have "(of_int (m - 1) :: rat) < of_int (f + 1)" "(of_int f :: rat) < of_int m"
      by simp_all
    then have "m - 1 < f + 1" "f < m" by (simp_all only: of_int_less_iff)
    then have "f + 1 = m" by simp
    with 2 show ?thesis
      unfolding round_even_def Let_def f_def [symmetric] r_def [symmetric] by simp
  next
    case 3
    with m have "(of_int m :: rat) < of_int (f + 1)" "(of_int f :: rat) < of_int m"
      by simp_all
    then have "m < f + 1" "f < m" by (simp_all only: of_int_less_iff)
    then have False by simp
    then show ?thesis ..
  qed
qed

lemma round64_eqI:
  assumes "2 powi e \<le> \<bar>x\<bar>" and "\<bar>x\<bar> < 2 powi (e + 1)"
    and "\<bar>x / 2 powi (e - 52) - of_int m\<bar> < 1 / 2"
    and "of_int m * 2 powi (e - 52) = v"
  shows "round64 x = v"
proof -
  from assms(1,2) have "ilog2 \<bar>x\<bar> = e" by (rule ilog2_eqI)
  moreover have "x \<noteq> 0"
  proof
    assume "x = 0"
    then have "\<bar>x\<bar> = 0" by simp
    moreover have "(0 :: rat) < 2 powi e" by simp
    ultimately show False using assms(1) by linarith
  qed
  moreover from assms(3) have "round_even (x / 2 powi (e - 52)) = m" by (rule round_even_eqI)
  ultimately show ?thesis using assms(4) by (simp add: round64_def)
qed

lemma round_even_tie:
  "round_even (of_int f + 1 / 2) = (if even f then f else f + 1)"
proof -
  have "\<lfloor>(of_int f :: rat) + 1 / 2\<rfloor> = f" by linarith
  then show ?thesis by (simp add: round_even_def)
qed

lemma round64_tieI:
  assumes "2 powi e \<le> \<bar>x\<bar>" and "\<bar>x\<bar> < 2 powi (e + 1)"
    and "x / 2 powi (e - 52) = of_int f + 1 / 2"
    and "of_int (if even f then f else f + 1) * 2 powi (e - 52) = v"
  shows "round64 x = v"
proof -
  from assms(1,2) have "ilog2 \<bar>x\<bar> = e" by (rule ilog2_eqI)
  moreover have "x \<noteq> 0"
  proof
    assume "x = 0"
    then have "\<bar>x\<bar> = 0" by simp
    moreover have "(0 :: rat) < 2 powi e" by simp
    ultimately show False using assms(1) by linarith
  qed
  moreover from assms(3) have "round_even (x / 2 powi (e - 52)) = (if even f then f else f + 1)"
    by (simp only: round_even_tie)
  ultimately show ?thesis using assms(4) by (simp add: round64_def)
qed

lemma round64_zero: "round64 0 = 0"
  by (simp add: round64_def)

lemma binary64_ops_simps:
  "lit binary64_ops x = round64 x" "fadd binary64_ops x y = round64 (x + y)"
  "fmul binary64_ops x y = round64 (x * y)" "fdiv binary64_ops x y = round64 (x / y)"
  "fsum binary64_ops xs = foldl (\<lambda>a x. round64 (a + x)) 0 xs"
  by (simp_all add: binary64_ops_def)

section \<open>The luck distribution\<close>

lemma sum_list_mono_bounds:
  fixes f g :: "'a \<Rightarrow> rat"
  assumes "\<forall>x \<in> set xs. f x \<le> g x"
  shows "sum_list (map f xs) \<le> sum_list (map g xs)"
  using assms by (induction xs) (auto intro: add_mono)

lemma normalized_sum:
  fixes ws :: "rat list"
  assumes ops: "rounds_correctly ops"
    and len: "length ws \<le> 5"
    and nonneg: "\<forall>w \<in> set ws. 0 \<le> w"
    and pos: "0 < sum_list ws"
  shows "0 < fsum ops ws"
    and "\<bar>sum_list (map (\<lambda>w. fdiv ops w (fsum ops ws)) ws) - 1\<bar> \<le> 1 / 10 ^ 9"
proof -
  define u where "u = unit_roundoff"
  define S where "S = sum_list ws"
  define T where "T = fsum ops ws"
  have u: "0 < u" "u \<le> 1 / 2 ^ 53" by (simp_all add: u_def unit_roundoff_def)
  from ops len nonneg have "\<bar>T - S\<bar> \<le> 8 * u * S"
    unfolding rounds_correctly_def T_def S_def u_def by blast
  then have T: "(1 - 8 * u) * S \<le> T" "T \<le> (1 + 8 * u) * S"
    by (simp_all add: abs_le_iff algebra_simps)
  have small: "8 * u \<le> 1 / 2 ^ 50" using u by simp
  from pos have S: "0 < S" by (simp add: S_def)
  have "0 < (1 - 8 * u) * S" using S small by (intro mult_pos_pos) simp_all
  with T show Tpos: "0 < fsum ops ws" by (simp add: T_def)
  then have T0: "0 < T" by (simp add: T_def)
  have each: "(1 - u) * (w / T) \<le> fdiv ops w T \<and> fdiv ops w T \<le> (1 + u) * (w / T)"
    if "w \<in> set ws" for w
  proof -
    from that nonneg have "0 \<le> w" by blast
    define q where "q = w / T"
    from \<open>0 \<le> w\<close> T0 have q: "0 \<le> q" by (simp add: q_def)
    from ops T0 have "\<bar>fdiv ops w T - w / T\<bar> \<le> u * \<bar>w / T\<bar>"
      unfolding rounds_correctly_def u_def by (metis less_irrefl)
    then have "\<bar>fdiv ops w T - q\<bar> \<le> u * \<bar>q\<bar>" by (simp only: q_def)
    with q have "\<bar>fdiv ops w T - q\<bar> \<le> u * q" by (simp only: abs_of_nonneg)
    then have "(1 - u) * q \<le> fdiv ops w T \<and> fdiv ops w T \<le> (1 + u) * q"
      by (simp add: abs_le_iff algebra_simps)
    then show ?thesis by (simp only: q_def)
  qed
  define P where "P = sum_list (map (\<lambda>w. fdiv ops w T) ws)"
  have "sum_list (map (\<lambda>w. (1 - u) * (w / T)) ws) \<le> P"
    unfolding P_def by (rule sum_list_mono_bounds) (use each in blast)
  moreover have "P \<le> sum_list (map (\<lambda>w. (1 + u) * (w / T)) ws)"
    unfolding P_def by (rule sum_list_mono_bounds) (use each in blast)
  moreover have "sum_list (map (\<lambda>w. c * (w / T)) ws) = c * (S / T)" for c
    unfolding S_def by (induction ws) (simp_all add: algebra_simps add_divide_distrib)
  ultimately have P: "(1 - u) * (S / T) \<le> P" "P \<le> (1 + u) * (S / T)" by simp_all
  have ST_hi: "S / T \<le> 1 / (1 - 8 * u)"
  proof -
    have "0 < 1 - 8 * u" using small by simp
    with T(1) T0 S show ?thesis
      by (simp add: field_simps)
  qed
  have ST_lo: "1 / (1 + 8 * u) \<le> S / T"
  proof -
    have "0 < 1 + 8 * u" using u by simp
    with T(2) T0 S show ?thesis
      by (simp add: field_simps)
  qed
  define e :: rat where "e = 1 / 10 ^ 9"
  have e: "e = 1 / 10 ^ 9" by (simp add: e_def)
  have hi1: "P \<le> (1 + u) * (1 / (1 - 8 * u))"
  proof -
    have "0 \<le> 1 + u" using u by simp
    from mult_left_mono [OF ST_hi this] P(2) show ?thesis by simp
  qed
  have hi2: "(1 + u) * (1 / (1 - 8 * u)) \<le> 1 + e"
  proof -
    have d: "0 < 1 - 8 * u" using small by simp
    have "1 + u \<le> (1 + e) * (1 - 8 * u)" using u by (simp add: e)
    with d show ?thesis by (simp add: pos_divide_le_eq)
  qed
  have lo1: "(1 - u) * (1 / (1 + 8 * u)) \<le> P"
  proof -
    have "0 \<le> 1 - u" using u by simp
    from mult_left_mono [OF ST_lo this] P(1) show ?thesis by simp
  qed
  have lo2: "1 - e \<le> (1 - u) * (1 / (1 + 8 * u))"
  proof -
    have d: "0 < 1 + 8 * u" using u by simp
    have "(1 - e) * (1 + 8 * u) \<le> 1 - u" using u by (simp add: e)
    with d show ?thesis by (simp add: pos_le_divide_eq)
  qed
  from hi1 hi2 have "P \<le> 1 + e" by (rule order_trans)
  moreover from lo2 lo1 have "1 - e \<le> P" by (rule order_trans)
  ultimately have "\<bar>P - 1\<bar> \<le> e" by (simp only: abs_le_iff) linarith
  then show "\<bar>sum_list (map (\<lambda>w. fdiv ops w (fsum ops ws)) ws) - 1\<bar> \<le> 1 / 10 ^ 9"
    by (simp only: P_def T_def e_def)
qed

lemma constellations_distinct:
  "aries \<noteq> capricorn" "aries \<noteq> pisces" "capricorn \<noteq> pisces"
  "capricorn \<noteq> aries" "pisces \<noteq> aries" "pisces \<noteq> capricorn"
  by (simp_all add: aries_def capricorn_def pisces_def)

lemma final_weights_code:
  "final_weights ops (adjustments ops) c = adjusted_weights ops c"
proof -
  consider "c = aries" | "c = capricorn" | "c = pisces"
    | "c \<noteq> aries" "c \<noteq> capricorn" "c \<noteq> pisces" by blast
  then show ?thesis
    by cases
      (simp_all add: final_weights_def adjusted_weights_def registered_delta_def
        adjustments_def weights_def dict_add_def constellations_distinct)
qed

lemma lit_bounds:
  assumes "rounds_correctly ops" and "0 \<le> x"
  shows "(1 - unit_roundoff) * x \<le> lit ops x" and "lit ops x \<le> (1 + unit_roundoff) * x"
proof -
  from assms have "\<bar>lit ops x - x\<bar> \<le> unit_roundoff * x"
    unfolding rounds_correctly_def by blast
  then show "(1 - unit_roundoff) * x \<le> lit ops x" and "lit ops x \<le> (1 + unit_roundoff) * x"
    by (simp_all add: abs_le_iff algebra_simps)
qed

lemma lit_nonneg:
  assumes "rounds_correctly ops" and "0 \<le> x"
  shows "0 \<le> lit ops x"
proof -
  have "0 \<le> (1 - unit_roundoff) * x"
    using assms(2) by (intro mult_nonneg_nonneg) (simp_all add: unit_roundoff_def)
  with lit_bounds(1) [OF assms] show ?thesis by simp
qed

lemma lit_pos:
  assumes "rounds_correctly ops" and "0 < x"
  shows "0 < lit ops x"
proof -
  have "0 < (1 - unit_roundoff) * x"
    using assms(2) by (intro mult_pos_pos) (simp_all add: unit_roundoff_def)
  with lit_bounds(1) [OF assms(1), of x] assms(2) show ?thesis by simp
qed

lemma fadd_nonneg:
  assumes "rounds_correctly ops" and "0 \<le> x + y"
  shows "0 \<le> fadd ops x y"
proof -
  define s where "s = x + y"
  from assms(1) have "\<bar>fadd ops x y - s\<bar> \<le> unit_roundoff * \<bar>s\<bar>"
    unfolding rounds_correctly_def s_def by blast
  with assms(2) have "\<bar>fadd ops x y - s\<bar> \<le> unit_roundoff * s"
    by (simp add: s_def)
  then have "(1 - unit_roundoff) * s \<le> fadd ops x y"
    by (simp add: abs_le_iff algebra_simps)
  moreover have "0 \<le> (1 - unit_roundoff) * s"
    using assms(2) by (intro mult_nonneg_nonneg) (simp_all add: unit_roundoff_def s_def)
  ultimately show ?thesis by simp
qed

lemma lit_difference_nonneg:
  assumes ops: "rounds_correctly ops" and "0 \<le> y" and "2 * y \<le> x"
  shows "0 \<le> lit ops x + - lit ops y"
proof -
  from assms have x: "0 \<le> x" by simp
  have u: "0 \<le> unit_roundoff" "unit_roundoff \<le> 1 / 4" by (simp_all add: unit_roundoff_def)
  from lit_bounds(1) [OF ops x] have "x - unit_roundoff * x \<le> lit ops x"
    by (simp add: algebra_simps)
  moreover from lit_bounds(2) [OF ops assms(2)] have "lit ops y \<le> y + unit_roundoff * y"
    by (simp add: algebra_simps)
  moreover have "unit_roundoff * x \<le> (1 / 4) * x"
    using u x by (intro mult_right_mono) simp_all
  moreover have "unit_roundoff * y \<le> (1 / 4) * y"
    using u assms(2) by (intro mult_right_mono) simp_all
  ultimately show ?thesis using assms(2,3) by simp
qed

lemma adjusted_weights_nonneg:
  assumes ops: "rounds_correctly ops"
  shows "\<forall>w \<in> set (map snd (adjusted_weights ops c)). 0 \<le> w"
proof -
  note lit0 = lit_nonneg [OF ops]
  have base: "0 \<le> lit ops (15 / 100)" "0 \<le> lit ops (25 / 100)" "0 \<le> lit ops (35 / 100)"
    "0 \<le> lit ops (2 / 10)" "0 \<le> lit ops (5 / 100)"
    by (rule lit0, simp)+
  have a1: "0 \<le> fadd ops (lit ops (15 / 100)) (lit ops (5 / 100))"
    by (intro fadd_nonneg [OF ops] add_nonneg_nonneg lit0) simp_all
  have a2: "0 \<le> fadd ops (lit ops (2 / 10)) (- lit ops (3 / 100))"
    by (intro fadd_nonneg [OF ops] lit_difference_nonneg [OF ops]) simp_all
  have c1: "0 \<le> fadd ops (lit ops (25 / 100)) (lit ops (1 / 10))"
    by (intro fadd_nonneg [OF ops] add_nonneg_nonneg lit0) simp_all
  have c2: "0 \<le> fadd ops (lit ops (5 / 100)) (- lit ops (5 / 100))"
    by (intro fadd_nonneg [OF ops]) simp
  have p1: "0 \<le> fadd ops (lit ops (35 / 100)) (lit ops (7 / 100))"
    by (intro fadd_nonneg [OF ops] add_nonneg_nonneg lit0) simp_all
  have p2: "0 \<le> fadd ops (lit ops (2 / 10)) (lit ops (3 / 100))"
    by (intro fadd_nonneg [OF ops] add_nonneg_nonneg lit0) simp_all
  consider "c = aries" | "c = capricorn" | "c = pisces"
    | "c \<noteq> aries" "c \<noteq> capricorn" "c \<noteq> pisces" by blast
  then show ?thesis
  proof cases
    case 1
    with base a1 a2 show ?thesis
      by (simp add: adjusted_weights_def registered_delta_def adjustments_def weights_def
          constellations_distinct)
  next
    case 2
    with base c1 c2 show ?thesis
      by (simp add: adjusted_weights_def registered_delta_def adjustments_def weights_def
          constellations_distinct)
  next
    case 3
    with base p1 p2 show ?thesis
      by (simp add: adjusted_weights_def registered_delta_def adjustments_def weights_def
          constellations_distinct)
  next
    case 4
    with base show ?thesis
      by (simp add: adjusted_weights_def registered_delta_def adjustments_def weights_def)
  qed
qed

lemma sum_list_pos_member:
  fixes xs :: "rat list"
  assumes "\<forall>x \<in> set xs. 0 \<le> x" and "x \<in> set xs" and "0 < x"
  shows "0 < sum_list xs"
proof -
  from assms(1,2) have "x \<le> sum_list xs" by (simp add: member_le_sum_list)
  with assms(3) show ?thesis by simp
qed

lemma adjusted_weights_member:
  "lit ops (15 / 100) \<in> set (map snd (adjusted_weights ops c)) \<or>
   lit ops (25 / 100) \<in> set (map snd (adjusted_weights ops c))"
proof -
  consider "c = aries" | "c = capricorn" | "c = pisces"
    | "c \<noteq> aries" "c \<noteq> capricorn" "c \<noteq> pisces" by blast
  then show ?thesis
    by cases
      (simp_all add: adjusted_weights_def registered_delta_def adjustments_def weights_def
        constellations_distinct)
qed

lemma adjusted_weights_sum_pos:
  assumes ops: "rounds_correctly ops"
  shows "0 < sum_list (map snd (adjusted_weights ops c))"
proof -
  from adjusted_weights_member [of ops c] obtain x where
    x: "x \<in> set (map snd (adjusted_weights ops c))" and "x = lit ops (15 / 100) \<or> x = lit ops (25 / 100)"
    by blast
  then have "0 < x" using lit_pos [OF ops, of "15 / 100"] lit_pos [OF ops, of "25 / 100"] by auto
  with adjusted_weights_nonneg [OF ops, of c] x show ?thesis
    by (rule sum_list_pos_member)
qed

lemma map_snd_scaled:
  "map snd (map (\<lambda>(k, w). (k, f w)) xs) = map f (map snd xs)"
  by (induction xs) auto


text \<open>The roundings that occur for Capricorn with \<open>random()\<close> returning 1/64.\<close>

lemma round64_capricorn:
  "round64 (3 / 20) = 5404319552844595 / 36028797018963968"
  "round64 (1 / 4) = 1 / 4"
  "round64 (7 / 20) = 3152519739159347 / 9007199254740992"
  "round64 (1 / 5) = 3602879701896397 / 18014398509481984"
  "round64 (1 / 20) = 3602879701896397 / 72057594037927936"
  "round64 (1 / 10) = 3602879701896397 / 36028797018963968"
  "round64 (12610078956637389 / 36028797018963968) = 3152519739159347 / 9007199254740992"
  "round64 (5404319552844595 / 36028797018963968) = 5404319552844595 / 36028797018963968"
  "round64 (18014398509481983 / 36028797018963968) = 1 / 2"
  "round64 (7656119366529843 / 9007199254740992) = 7656119366529843 / 9007199254740992"
  "round64 (18915118434956083 / 18014398509481984) = 4728779608739021 / 4503599627370496"
  "round64 (4728779608739021 / 4503599627370496) = 4728779608739021 / 4503599627370496"
  "round64 (5404319552844595 / 37830236869912168) = 2573485501354569 / 18014398509481984"
  "round64 (3152519739159347 / 9457559217478042) = 6004799503160661 / 18014398509481984"
  "round64 (3602879701896397 / 18915118434956084) = 857828500451523 / 4503599627370496"
  "round64 (4289142502257615 / 9007199254740992) = 4289142502257615 / 9007199254740992"
  "round64 (14583084507675891 / 18014398509481984) = 3645771126918973 / 4503599627370496"
  "round64 (1) = 1"
  "round64 (1 / 64) = 1 / 64"
proof -
  show "round64 (3 / 20) = 5404319552844595 / 36028797018963968"
    by (rule round64_eqI [where e = "-3" and m = "5404319552844595"]) (simp_all add: power_int_minus)
  show "round64 (1 / 4) = 1 / 4"
    by (rule round64_eqI [where e = "-2" and m = "4503599627370496"]) (simp_all add: power_int_minus)
  show "round64 (7 / 20) = 3152519739159347 / 9007199254740992"
    by (rule round64_eqI [where e = "-2" and m = "6305039478318694"]) (simp_all add: power_int_minus)
  show "round64 (1 / 5) = 3602879701896397 / 18014398509481984"
    by (rule round64_eqI [where e = "-3" and m = "7205759403792794"]) (simp_all add: power_int_minus)
  show "round64 (1 / 20) = 3602879701896397 / 72057594037927936"
    by (rule round64_eqI [where e = "-5" and m = "7205759403792794"]) (simp_all add: power_int_minus)
  show "round64 (1 / 10) = 3602879701896397 / 36028797018963968"
    by (rule round64_eqI [where e = "-4" and m = "7205759403792794"]) (simp_all add: power_int_minus)
  show "round64 (12610078956637389 / 36028797018963968) = 3152519739159347 / 9007199254740992"
    by (rule round64_tieI [where e = "-2" and f = "6305039478318694"]) (simp_all add: power_int_minus)
  show "round64 (5404319552844595 / 36028797018963968) = 5404319552844595 / 36028797018963968"
    by (rule round64_eqI [where e = "-3" and m = "5404319552844595"]) (simp_all add: power_int_minus)
  show "round64 (18014398509481983 / 36028797018963968) = 1 / 2"
    by (rule round64_tieI [where e = "-2" and f = "9007199254740991"]) (simp_all add: power_int_minus)
  show "round64 (7656119366529843 / 9007199254740992) = 7656119366529843 / 9007199254740992"
    by (rule round64_eqI [where e = "-1" and m = "7656119366529843"]) (simp_all add: power_int_minus)
  show "round64 (18915118434956083 / 18014398509481984) = 4728779608739021 / 4503599627370496"
    by (rule round64_eqI [where e = "0" and m = "4728779608739021"]) (simp_all add: power_int_minus)
  show "round64 (4728779608739021 / 4503599627370496) = 4728779608739021 / 4503599627370496"
    by (rule round64_eqI [where e = "0" and m = "4728779608739021"]) (simp_all add: power_int_minus)
  show "round64 (5404319552844595 / 37830236869912168) = 2573485501354569 / 18014398509481984"
    by (rule round64_eqI [where e = "-3" and m = "5146971002709138"]) (simp_all add: power_int_minus)
  show "round64 (3152519739159347 / 9457559217478042) = 6004799503160661 / 18014398509481984"
    by (rule round64_eqI [where e = "-2" and m = "6004799503160661"]) (simp_all add: power_int_minus)
  show "round64 (3602879701896397 / 18915118434956084) = 857828500451523 / 4503599627370496"
    by (rule round64_eqI [where e = "-3" and m = "6862628003612184"]) (simp_all add: power_int_minus)
  show "round64 (4289142502257615 / 9007199254740992) = 4289142502257615 / 9007199254740992"
    by (rule round64_eqI [where e = "-2" and m = "8578285004515230"]) (simp_all add: power_int_minus)
  show "round64 (14583084507675891 / 18014398509481984) = 3645771126918973 / 4503599627370496"
    by (rule round64_tieI [where e = "-1" and f = "7291542253837945"]) (simp_all add: power_int_minus)
  show "round64 (1) = 1"
    by (rule round64_eqI [where e = "0" and m = "4503599627370496"]) (simp_all add: power_int_minus)
  show "round64 (1 / 64) = 1 / 64"
    by (rule round64_eqI [where e = "-6" and m = "4503599627370496"]) (simp_all add: power_int_minus)
qed

lemma capricorn_distribution:
  "spec_distribution binary64_ops capricorn =
     [(Great_luck, 2573485501354569 / 18014398509481984),
      (Middle_luck, 6004799503160661 / 18014398509481984),
      (Small_luck, 6004799503160661 / 18014398509481984),
      (Bad_luck, 857828500451523 / 4503599627370496),
      (Great_bad_luck, 0)]"
  by (simp add: spec_distribution_def adjusted_weights_def registered_delta_def adjustments_def
      weights_def constellations_distinct binary64_ops_simps round64_capricorn round64_zero
      Let_def)

lemma capricorn_draw:
  "draw binary64_ops
     [(Great_luck, 2573485501354569 / 18014398509481984),
      (Middle_luck, 6004799503160661 / 18014398509481984),
      (Small_luck, 6004799503160661 / 18014398509481984),
      (Bad_luck, 857828500451523 / 4503599627370496),
      (Great_bad_luck, 0)] rng_low =
   Inr (Great_luck, Detail Great_luck 1)"
  by (simp add: draw_def choices_def choice_def load_lucky_data_def rng_low_def
      binary64_ops_simps round64_capricorn round64_zero bisect.simps Let_def)

text \<open>
  Claim C4.  Let the float arithmetic round correctly.  For every constellation, the
  dictionary that \<open>_generate_luck\<close> has after its adjustment loop is the base table with
  the registered delta added to each tier that the constellation's adjustment lists and
  every other tier unchanged (the base table itself for a constellation without an
  adjustment); the probabilities it hands to \<open>random.choices\<close> are these adjusted weights
  divided by their sum, and the tier and description it returns are drawn from them.
  No adjusted weight is negative, there are five probabilities, and their sum differs
  from 1 by at most \<open>10\<^sup>-\<^sup>9\<close>.
\<close>

theorem luck_probs_normalized:
  assumes ops: "rounds_correctly ops"
  shows "final_weights ops (adjustments ops) c = adjusted_weights ops c \<and>
         luck_probs ops c = Inr (spec_distribution ops c) \<and>
         generate_luck ops c g = draw ops (spec_distribution ops c) g \<and>
         (\<forall>w \<in> set (map snd (adjusted_weights ops c)). 0 \<le> w) \<and>
         length (spec_distribution ops c) = 5 \<and>
         \<bar>sum_list (map snd (spec_distribution ops c)) - 1\<bar> \<le> 1 / 10 ^ 9"
proof -
  define ws where "ws = map snd (adjusted_weights ops c)"
  have nonneg: "\<forall>w \<in> set ws. 0 \<le> w"
    unfolding ws_def by (rule adjusted_weights_nonneg [OF ops])
  have pos: "0 < sum_list ws"
    unfolding ws_def by (rule adjusted_weights_sum_pos [OF ops])
  have len: "length ws \<le> 5"
    by (simp add: ws_def adjusted_weights_def weights_def)
  from normalized_sum [OF ops len nonneg pos]
  have total: "0 < fsum ops ws"
    and bound: "\<bar>sum_list (map (\<lambda>w. fdiv ops w (fsum ops ws)) ws) - 1\<bar> \<le> 1 / 10 ^ 9"
    by simp_all
  have probs: "luck_probs ops c = Inr (spec_distribution ops c)"
    using total
    by (simp add: luck_probs_def final_weights_code normalize_weights_def spec_distribution_def
        Let_def ws_def)
  then have "generate_luck ops c g = draw ops (spec_distribution ops c) g"
    by (simp add: generate_luck_def generate_luck_from_def luck_probs_def)
  moreover have "map snd (spec_distribution ops c) = map (\<lambda>w. fdiv ops w (fsum ops ws)) ws"
    unfolding spec_distribution_def Let_def ws_def by (rule map_snd_scaled)
  moreover have "length (spec_distribution ops c) = 5"
    by (simp add: spec_distribution_def Let_def adjusted_weights_def weights_def)
  ultimately show ?thesis
    using probs nonneg bound by (simp add: final_weights_code ws_def)
qed

theorem luck_probs_normalized_witness:
  "rounds_correctly binary64_ops \<and>
   luck_probs binary64_ops capricorn =
     Inr [(Great_luck, 2573485501354569 / 18014398509481984),
          (Middle_luck, 6004799503160661 / 18014398509481984),
          (Small_luck, 6004799503160661 / 18014398509481984),
          (Bad_luck, 857828500451523 / 4503599627370496),
          (Great_bad_luck, 0)] \<and>
   generate_luck binary64_ops capricorn rng_low = Inr (Great_luck, Detail Great_luck 1) \<and>
   \<bar>sum_list [2573485501354569 / 18014398509481984, 6004799503160661 / 18014398509481984,
              6004799503160661 / 18014398509481984, 857828500451523 / 4503599627370496,
              0 :: rat] - 1\<bar> \<le> 1 / 10 ^ 9"
proof -
  from luck_probs_normalized [OF rounds_correctly_binary64, of capricorn rng_low]
  have "luck_probs binary64_ops capricorn = Inr (spec_distribution binary64_ops capricorn)"
    and "generate_luck binary64_ops capricorn rng_low =
      draw binary64_ops (spec_distribution binary64_ops capricorn) rng_low"
    and "\<bar>sum_list (map snd (spec_distribution binary64_ops capricorn)) - 1\<bar> \<le> 1 / 10 ^ 9"
    by simp_all
  then show ?thesis
    using rounds_correctly_binary64
    by (simp add: capricorn_distribution capricorn_draw)
qed

end
